theory Spec2Isabelle
  imports Main "HOL-Library.Word"
begin

section \<open>Data model of the MySQL log storage\<close>

text \<open>
  Byte slices are lists of 8-bit words, Go's \<open>int64\<close> and \<open>uint64\<close> are 64-bit
  words (read with \<open>sint\<close> where the code compares them as signed values, so that
  every addition wraps as it does in Go). A \<open>time.Time\<close> and a protobuf timestamp
  are the number of nanoseconds since the Unix epoch, an unbounded integer.
\<close>

type_synonym bytes = "8 word list"
type_synonym int64 = "64 word"
type_synonym uint64 = "64 word"
type_synonym Time = int

datatype codes = OK | InvalidArgument | NotFound | AlreadyExists | FailedPrecondition | OutOfRange

text \<open>
  Errors of the \<open>database/sql\<close> driver. \<open>DuplicateEntry\<close> is MySQL error 1062, the
  one \<open>isDuplicateErr\<close> recognises; \<open>ErrNoRows\<close> is \<open>sql.ErrNoRows\<close>; \<open>ScanNull\<close>
  is the conversion error of \<open>Scan\<close> when a NULL column meets a non-nullable Go variable;
  \<open>SavepointDoesNotExist\<close> is MySQL error 1305 for a rollback to an unknown savepoint.
\<close>

datatype sqlError = DuplicateEntry | ErrNoRows | ScanNull | SavepointDoesNotExist

text \<open>
  Go errors as values. \<open>StatusErr c f\<close> is \<open>status.Errorf(c, f, ...)\<close> with the
  format string \<open>f\<close> (its arguments are left out); the \<open>fmt.Errorf\<close> and
  \<open>errors.New\<close> values, which carry no gRPC code, have one constructor for each
  message, with the formatted arguments as fields.
\<close>

datatype error =
    StatusErr codes string
  | ErrTreeNeedsInit
  | SqlErr sqlError
  | UnexpectedIndex int64 int64
  | InvalidQueueTimestamp
  | InvalidIntegrateTimestamp
  | BadQueuedHashLength nat
  | BadScannedHashLength nat nat
  | RetrieveExistingFailed error
  | RetrieveAllExistingFailed nat nat
  | ExistingLeafNotFound bytes
  | MetadataUnsupported
  | RowCountMismatch nat nat
  | UnmarshalFailed
  | MarshalFailed
  | ErrorReadingTree error
  | ReadTreeFailed
  | MaxRootDurationInvalid
  | StorageSettingsInvalid
  | ValidationFailed
  | IndexOutOfRangePanic nat nat
  | MakeSliceCapPanic
  | DequeuedBadHashSize

datatype TreeType = UNKNOWN_TREE_TYPE | LOG | PREORDERED_LOG

datatype TreeState = UNKNOWN_TREE_STATE | ACTIVE | FROZEN | DRAINING

text \<open>\<open>anypb.Any\<close>: the type URL and the serialized message.\<close>

datatype Any = Any (type_url: string) (any_value: bytes)

text \<open>
  \<open>trillian.Tree\<close>. \<open>MaxRootDuration\<close> is a \<open>durationpb.Duration\<close>, here its length
  in nanoseconds, or \<open>None\<close> for a nil pointer.
\<close>

record Tree =
  TreeId :: int64
  TreeState :: TreeState
  TreeType :: TreeType
  DisplayName :: string
  Description :: string
  CreateTime :: "Time option"
  UpdateTime :: "Time option"
  MaxRootDuration :: "int option"
  StorageSettings :: "Any option"
  Deleted :: bool
  DeleteTime :: "Time option"

subsection \<open>Tables\<close>

record LeafDataRow =
  ld_TreeId :: int64
  ld_LeafIdentityHash :: bytes
  ld_LeafValue :: bytes
  ld_ExtraData :: bytes
  ld_QueueTimestampNanos :: int64

record SequencedLeafDataRow =
  sq_TreeId :: int64
  sq_LeafIdentityHash :: bytes
  sq_MerkleLeafHash :: bytes
  sq_SequenceNumber :: int64
  sq_IntegrateTimestampNanos :: int64

record UnsequencedRow =
  us_TreeId :: int64
  us_Bucket :: int64
  us_LeafIdentityHash :: bytes
  us_MerkleLeafHash :: bytes
  us_QueueTimestampNanos :: int64

record TreeHeadRow =
  th_TreeId :: int64
  th_TreeHeadTimestamp :: int64
  th_TreeSize :: int64
  th_RootHash :: bytes
  th_TreeRevision :: int64
  th_RootSignature :: bytes

record TreesRow =
  tr_TreeId :: int64
  tr_TreeState :: string
  tr_TreeType :: string
  tr_HashStrategy :: string
  tr_HashAlgorithm :: string
  tr_SignatureAlgorithm :: string
  tr_DisplayName :: string
  tr_Description :: string
  tr_CreateTimeMillis :: int64
  tr_UpdateTimeMillis :: int64
  tr_PrivateKey :: bytes
  tr_PublicKey :: bytes
  tr_MaxRootDurationMillis :: int64
  tr_Deleted :: "bool option"
  tr_DeleteTimeMillis :: "int64 option"

record TreeControlRow =
  tc_TreeId :: int64
  tc_SigningEnabled :: bool
  tc_SequencingEnabled :: bool
  tc_SequenceIntervalSeconds :: int64

text \<open>
  The database a transaction works on: each table is the list of its rows, in the
  order in which they were inserted.
\<close>

record database =
  Trees :: "TreesRow list"
  TreeControl :: "TreeControlRow list"
  TreeHead :: "TreeHeadRow list"
  LeafData :: "LeafDataRow list"
  SequencedLeafData :: "SequencedLeafDataRow list"
  Unsequenced :: "UnsequencedRow list"

subsection \<open>Leaves, roots and the log transaction\<close>

record LogLeaf =
  MerkleLeafHash :: bytes
  LeafValue :: bytes
  ExtraData :: bytes
  LeafIndex :: int64
  LeafIdentityHash :: bytes
  QueueTimestamp :: "Time option"
  IntegrateTimestamp :: "Time option"

text \<open>\<open>status.New(c, msg).Proto()\<close> is the pair of the code and the message.\<close>

record QueuedLogLeaf =
  Leaf :: "LogLeaf option"
  Status :: "(codes \<times> string) option"

record LogRootV1 =
  TreeSize :: uint64
  RootHash :: bytes
  TimestampNanos :: uint64
  Metadata :: bytes

record SignedLogRoot =
  LogRoot :: bytes

record dequeuedLeaf =
  dq_queueTimestampNanos :: int64
  dq_leafIdentityHash :: bytes

text \<open>
  \<open>logTreeTX\<close> with the fields of the embedded \<open>treeTX\<close> that the log storage reads.
  \<open>tx\<close> is the state of the tables as the open transaction sees it and \<open>savepoint\<close>
  the tables as they were at the last \<open>SAVEPOINT AddSequencedLeaves\<close> (MySQL replaces
  a savepoint of the same name). \<open>leafInserts\<close> is not in the source: it records the
  identity hash of every \<open>INSERT INTO LeafData\<close> the transaction has sent, in the
  order sent.
\<close>

record logTreeTX =
  tx :: database
  savepoint :: "database option"
  leafInserts :: "bytes list"
  treeID :: int64
  treeType :: TreeType
  hashSizeBytes :: nat
  writeRevision :: int64
  root :: LogRootV1
  readRev :: int64
  slr :: "SignedLogRoot option"
  dequeued :: "(bytes \<times> dequeuedLeaf) list"

subsection \<open>Timestamps\<close>

text \<open>
  \<open>timestamppb.New(t).CheckValid()\<close>: the seconds (the nanoseconds divided by
  \<open>10^9\<close>, rounded down) must lie between 0001-01-01 and 9999-12-31, that is in
  \<open>[-62135596800, 253402300800)\<close>.
\<close>

definition CheckValid :: "Time \<Rightarrow> bool" where
  "CheckValid t \<longleftrightarrow> - 62135596800 * 1000000000 \<le> t \<and> t < 253402300800 * 1000000000"

text \<open>\<open>time.Unix(0, n)\<close> of an \<open>int64\<close> and \<open>t.UnixNano()\<close>, which wraps to 64 bits.\<close>

definition timeUnix0 :: "int64 \<Rightarrow> Time" where
  "timeUnix0 n = sint n"

definition UnixNano :: "Time \<Rightarrow> int64" where
  "UnixNano t = word_of_int t"

section \<open>Reading leaves by range\<close>

text \<open>One row of the leaf-selection statements, in the order of their columns.\<close>

record leafRow =
  lr_MerkleLeafHash :: bytes
  lr_LeafIdentityHash :: bytes
  lr_LeafValue :: bytes
  lr_SequenceNumber :: int64
  lr_ExtraData :: bytes
  lr_QueueTimestampNanos :: int64
  lr_IntegrateTimestampNanos :: "int64 option"

text \<open>
  \<open>selectLeavesByRangeSQL\<close>: the join of \<open>LeafData\<close> and \<open>SequencedLeafData\<close> on the
  identity hash, within one tree, for the sequence numbers in \<open>[lo, hi)\<close>, ordered by
  sequence number (rows with the same sequence number stay in table order).
\<close>

definition selectLeavesByRange :: "database \<Rightarrow> int64 \<Rightarrow> int64 \<Rightarrow> int64 \<Rightarrow> leafRow list" where
  "selectLeavesByRange db lo hi tid =
     sort_key (\<lambda>r. sint (lr_SequenceNumber r))
       (concat (map (\<lambda>l. concat (map (\<lambda>s.
          if ld_LeafIdentityHash l = sq_LeafIdentityHash s
             \<and> lo \<le>s sq_SequenceNumber s \<and> sq_SequenceNumber s <s hi
             \<and> ld_TreeId l = tid \<and> sq_TreeId s = ld_TreeId l
          then [\<lparr>lr_MerkleLeafHash = sq_MerkleLeafHash s,
                 lr_LeafIdentityHash = ld_LeafIdentityHash l,
                 lr_LeafValue = ld_LeafValue l,
                 lr_SequenceNumber = sq_SequenceNumber s,
                 lr_ExtraData = ld_ExtraData l,
                 lr_QueueTimestampNanos = ld_QueueTimestampNanos l,
                 lr_IntegrateTimestampNanos = Some (sq_IntegrateTimestampNanos s)\<rparr>]
          else []) (SequencedLeafData db))) (LeafData db)))"

text \<open>
  The loop over the rows in \<open>getLeavesByRangeInternal\<close>: \<open>wantIndex\<close> starts at
  \<open>start\<close> and is incremented after each row; \<open>ret\<close> collects the leaves.
\<close>

fun scanRange :: "int64 \<Rightarrow> int64 \<Rightarrow> leafRow list \<Rightarrow> LogLeaf list \<Rightarrow> error + LogLeaf list" where
  "scanRange treeSize wantIndex [] ret = Inr ret"
| "scanRange treeSize wantIndex (r # rows) ret =
     (case lr_IntegrateTimestampNanos r of
        None \<Rightarrow> Inl (SqlErr ScanNull)
      | Some iTimestamp \<Rightarrow>
          if lr_SequenceNumber r \<noteq> wantIndex then
            (if wantIndex <s treeSize
             then Inl (UnexpectedIndex (lr_SequenceNumber r) wantIndex)
             else Inr ret)
          else if \<not> CheckValid (timeUnix0 (lr_QueueTimestampNanos r)) then Inl InvalidQueueTimestamp
          else if \<not> CheckValid (timeUnix0 iTimestamp) then Inl InvalidIntegrateTimestamp
          else scanRange treeSize (wantIndex + 1) rows
                 (ret @ [\<lparr>MerkleLeafHash = lr_MerkleLeafHash r,
                           LeafValue = lr_LeafValue r,
                           ExtraData = lr_ExtraData r,
                           LeafIndex = lr_SequenceNumber r,
                           LeafIdentityHash = lr_LeafIdentityHash r,
                           QueueTimestamp = Some (timeUnix0 (lr_QueueTimestampNanos r)),
                           IntegrateTimestamp = Some (timeUnix0 iTimestamp)\<rparr>]))"

text \<open>
  The count that reaches the query: for a \<open>LOG\<close> tree an empty tree and a start at
  or beyond the tree size are refused, and the count is cut to what the tree holds.
\<close>

definition clipCount :: "logTreeTX \<Rightarrow> int64 \<Rightarrow> int64 \<Rightarrow> error + int64" where
  "clipCount t start count =
     (if treeType t = LOG then
        (let treeSize = TreeSize (root t) in
         if treeSize \<le>s 0 then Inl (StatusErr OutOfRange ''empty tree'')
         else if treeSize \<le>s start
         then Inl (StatusErr OutOfRange ''invalid start %d, want < TreeSize(%d)'')
         else (let maxCount = treeSize - start in
               if maxCount <s count then Inr maxCount else Inr count))
      else Inr count)"

text \<open>
  \<open>make([]*trillian.LogLeaf, 0, n)\<close>: the Go runtime panics (\<open>makeslice: cap out of
  range\<close>) when the capacity is negative or when \<open>n\<close> pointers of 8 bytes are more than
  \<open>maxAlloc\<close>, the largest allocation the runtime admits, \<open>2^48\<close> bytes on the 64-bit
  platforms with 48 address bits such as linux/amd64. An allocation within that bound
  that the machine cannot serve ends the process; the memory of the machine is not
  part of the model.
\<close>

definition maxAlloc :: int where
  "maxAlloc = 2 ^ 48"

definition makeSliceCapOK :: "int64 \<Rightarrow> bool" where
  "makeSliceCapOK n \<longleftrightarrow> 0 \<le> sint n \<and> 8 * sint n \<le> maxAlloc"

text \<open>
  \<open>getLeavesByRangeInternal\<close>: the arguments are checked, the count is clipped, the
  query is sent, the slice of the result is made with the clipped count as its
  capacity, and the rows are scanned.
\<close>

definition getLeavesByRangeInternal :: "logTreeTX \<Rightarrow> int64 \<Rightarrow> int64 \<Rightarrow> error + LogLeaf list" where
  "getLeavesByRangeInternal t start count =
     (if count \<le>s 0 then Inl (StatusErr InvalidArgument ''invalid count %d, want > 0'')
      else if start <s 0 then Inl (StatusErr InvalidArgument ''invalid start %d, want >= 0'')
      else (case clipCount t start count of
              Inl e \<Rightarrow> Inl e
            | Inr count' \<Rightarrow>
                (let rows = selectLeavesByRange (tx t) start (start + count') (treeID t) in
                 if \<not> makeSliceCapOK count' then Inl MakeSliceCapPanic
                 else scanRange (TreeSize (root t)) start rows [])))"

definition GetLeavesByRange :: "logTreeTX \<Rightarrow> int64 \<Rightarrow> int64 \<Rightarrow> error + LogLeaf list" where
  "GetLeavesByRange t start count = getLeavesByRangeInternal t start count"

section \<open>Dequeueing\<close>

text \<open>
  \<open>bytes.Compare\<close> of the Go library: the lexicographic comparison of two byte
  slices, bytes compared as unsigned numbers; \<open>-1\<close>, \<open>0\<close> or \<open>1\<close>.
\<close>

fun bytesCompare :: "bytes \<Rightarrow> bytes \<Rightarrow> int" where
  "bytesCompare [] [] = 0"
| "bytesCompare [] (y # ys) = - 1"
| "bytesCompare (x # xs) [] = 1"
| "bytesCompare (x # xs) (y # ys) =
     (if x < y then - 1 else if y < x then 1 else bytesCompare xs ys)"

text \<open>
  A stable insertion sort for a given strict order, used where a statement has an
  \<open>ORDER BY\<close> clause over several columns.
\<close>

fun insertBy :: "('a \<Rightarrow> 'a \<Rightarrow> bool) \<Rightarrow> 'a \<Rightarrow> 'a list \<Rightarrow> 'a list" where
  "insertBy lt x [] = [x]"
| "insertBy lt x (y # ys) = (if lt y x then y # insertBy lt x ys else x # y # ys)"

definition sortBy :: "('a \<Rightarrow> 'a \<Rightarrow> bool) \<Rightarrow> 'a list \<Rightarrow> 'a list" where
  "sortBy lt xs = foldr (insertBy lt) xs []"

text \<open>
  Modelled from the spec: \<open>selectQueuedLeavesSQL\<close> and \<open>dequeueLeaf\<close> are used by
  \<open>DequeueLeaves\<close> but defined in a file that is not part of the sources read here.
  The spec: \<open>select up to limit queued entries with queue_timestamp \<le> cutoff_ts,
  ordered by (bucket, queue_timestamp, leaf_identity_hash)\<close>; the statement's
  arguments are the tree id, the cutoff in nanoseconds and the limit.
\<close>

definition queuedLess :: "UnsequencedRow \<Rightarrow> UnsequencedRow \<Rightarrow> bool" where
  "queuedLess a b \<longleftrightarrow>
     us_Bucket a <s us_Bucket b
     \<or> (us_Bucket a = us_Bucket b
        \<and> (us_QueueTimestampNanos a <s us_QueueTimestampNanos b
           \<or> (us_QueueTimestampNanos a = us_QueueTimestampNanos b
              \<and> bytesCompare (us_LeafIdentityHash a) (us_LeafIdentityHash b) = - 1)))"

definition selectQueuedLeaves :: "database \<Rightarrow> int64 \<Rightarrow> int64 \<Rightarrow> int64 \<Rightarrow> UnsequencedRow list" where
  "selectQueuedLeaves db tid cutoff limit =
     take (nat (sint limit))
       (sortBy queuedLess
          (filter (\<lambda>r. us_TreeId r = tid \<and> us_QueueTimestampNanos r \<le>s cutoff) (Unsequenced db)))"

text \<open>
  Modelled from the spec: \<open>dequeueLeaf\<close> turns one selected row into the leaf handed
  to the sequencer and the memo entry kept in \<open>dequeued\<close>.
\<close>

definition dequeueLeaf :: "UnsequencedRow \<Rightarrow> error + (LogLeaf \<times> dequeuedLeaf)" where
  "dequeueLeaf r =
     (if \<not> CheckValid (timeUnix0 (us_QueueTimestampNanos r)) then Inl InvalidQueueTimestamp
      else Inr (\<lparr>MerkleLeafHash = us_MerkleLeafHash r, LeafValue = [], ExtraData = [],
                  LeafIndex = 0, LeafIdentityHash = us_LeafIdentityHash r,
                  QueueTimestamp = Some (timeUnix0 (us_QueueTimestampNanos r)),
                  IntegrateTimestamp = None\<rparr>,
                \<lparr>dq_queueTimestampNanos = us_QueueTimestampNanos r,
                  dq_leafIdentityHash = us_LeafIdentityHash r\<rparr>))"

text \<open>
  The loop of \<open>DequeueLeaves\<close> over the selected rows. The memo \<open>dequeued\<close> is
  updated as the loop goes, also when a later row fails.
\<close>

fun dequeueRows :: "nat \<Rightarrow> UnsequencedRow list \<Rightarrow> (bytes \<times> dequeuedLeaf) list \<Rightarrow> LogLeaf list
    \<Rightarrow> (error + LogLeaf list) \<times> (bytes \<times> dequeuedLeaf) list" where
  "dequeueRows hs [] dq leaves = (Inr leaves, dq)"
| "dequeueRows hs (r # rows) dq leaves =
     (case dequeueLeaf r of
        Inl e \<Rightarrow> (Inl e, dq)
      | Inr (leaf, dqInfo) \<Rightarrow>
          if length (LeafIdentityHash leaf) \<noteq> hs then (Inl DequeuedBadHashSize, dq)
          else (case map_of dq (LeafIdentityHash leaf) of
                  Some d \<Rightarrow> dequeueRows hs rows dq leaves
                | None \<Rightarrow> dequeueRows hs rows ((LeafIdentityHash leaf, dqInfo) # dq) (leaves @ [leaf])))"

text \<open>
  \<open>DequeueLeaves\<close>; \<open>limit\<close> is a Go \<open>int\<close>, 64 bits wide, so \<open>int64(limit)\<close> is
  \<open>limit\<close>, and \<open>int64(t.root.TreeSize)\<close> reads the same 64 bits as a signed number.
  \<open>make\<close> panics on a capacity that is negative or beyond what the runtime admits.
\<close>

definition DequeueLeaves :: "logTreeTX \<Rightarrow> int64 \<Rightarrow> Time \<Rightarrow> (error + LogLeaf list) \<times> logTreeTX" where
  "DequeueLeaves t limit cutoffTime =
     (if treeType t = PREORDERED_LOG
      then (getLeavesByRangeInternal t (TreeSize (root t)) limit, t)
      else if \<not> makeSliceCapOK limit then (Inl MakeSliceCapPanic, t)
      else (case dequeueRows (hashSizeBytes t)
                   (selectQueuedLeaves (tx t) (treeID t) (UnixNano cutoffTime) limit)
                   (dequeued t) [] of
              (res, dq) \<Rightarrow> (res, t\<lparr>dequeued := dq\<rparr>)))"

section \<open>Results of statements\<close>

text \<open>
  \<open>mysqlToGRPC\<close> and \<open>checkResultOkAndRowCountIs\<close> are helpers of the package that
  are not part of the sources read here. The first turns a deadlock reported by MySQL
  into an \<open>Aborted\<close> status and passes any other error on, so it passes on every
  driver error of this model; the second returns the error of the statement if there is
  one and otherwise compares the number of affected rows with the expected one.
\<close>

definition mysqlToGRPC :: "sqlError \<Rightarrow> error" where
  "mysqlToGRPC e = SqlErr e"

definition checkResultOkAndRowCountIs :: "sqlError + nat \<Rightarrow> nat \<Rightarrow> error option" where
  "checkResultOkAndRowCountIs res count =
     (case res of
        Inl e \<Rightarrow> Some (mysqlToGRPC e)
      | Inr rowsAffected \<Rightarrow>
          if rowsAffected \<noteq> count then Some (RowCountMismatch count rowsAffected) else None)"

section \<open>Queueing leaves\<close>

subsection \<open>Sorting for insertion\<close>

text \<open>\<open>leafAndPosition\<close> records the original position before the sort.\<close>

record leafAndPosition =
  leaf :: LogLeaf
  idx :: nat

text \<open>\<open>byLeafIdentityHashWithPosition.Less\<close>, on two elements of the slice.\<close>

definition byLeafIdentityHashWithPosition_Less :: "leafAndPosition \<Rightarrow> leafAndPosition \<Rightarrow> bool" where
  "byLeafIdentityHashWithPosition_Less a b \<longleftrightarrow>
     bytesCompare (LeafIdentityHash (leaf a)) (LeafIdentityHash (leaf b)) = - 1"

text \<open>
  \<open>sortLeavesForInsert\<close>: the leaves are paired with their positions and handed to
  \<open>sort.Sort\<close>. The sort of the Go library is the parameter \<open>sortSort\<close>; what the
  library promises of it, for the slice \<open>xs\<close> it is given, is \<open>sortContract\<close>: the
  result holds the same elements, as many, and no element is followed by one that is
  \<open>Less\<close> than it. The library does not promise to keep equal elements in order.
\<close>

definition withPositions :: "LogLeaf list \<Rightarrow> leafAndPosition list" where
  "withPositions leaves = map (\<lambda>(i, lf). \<lparr>leaf = lf, idx = i\<rparr>) (enumerate 0 leaves)"

definition sortLeavesForInsert ::
    "(leafAndPosition list \<Rightarrow> leafAndPosition list) \<Rightarrow> LogLeaf list \<Rightarrow> leafAndPosition list" where
  "sortLeavesForInsert sortSort leaves = sortSort (withPositions leaves)"

definition sortContract ::
    "(leafAndPosition list \<Rightarrow> leafAndPosition list) \<Rightarrow> leafAndPosition list \<Rightarrow> bool" where
  "sortContract sortSort xs \<longleftrightarrow>
     set (sortSort xs) = set xs \<and> length (sortSort xs) = length xs
     \<and> sorted_wrt (\<lambda>a b. \<not> byLeafIdentityHashWithPosition_Less b a) (sortSort xs)"

text \<open>The insertion sort that \<open>sort.Sort\<close> runs on slices of fewer than 12 elements.\<close>

definition insertionSort :: "leafAndPosition list \<Rightarrow> leafAndPosition list" where
  "insertionSort xs = sortBy byLeafIdentityHashWithPosition_Less xs"

subsection \<open>Statements\<close>

text \<open>
  \<open>insertLeafDataSQL\<close>. Modelled from the spec: the schema is not part of the sources
  read here; the spec: \<open>LeafData key: (TreeId, LeafIdentityHash) unique\<close>.
\<close>

definition execInsertLeafData :: "database \<Rightarrow> LeafDataRow \<Rightarrow> sqlError + database" where
  "execInsertLeafData db row =
     (if \<exists>r\<in>set (LeafData db).
           ld_TreeId r = ld_TreeId row \<and> ld_LeafIdentityHash r = ld_LeafIdentityHash row
      then Inl DuplicateEntry
      else Inr (db\<lparr>LeafData := LeafData db @ [row]\<rparr>))"

text \<open>
  Modelled from the spec: \<open>insertUnsequencedEntrySQL\<close> and \<open>queueArgs\<close> are not part of
  the sources read here. The spec: for each successfully inserted leaf, insert a queued
  entry with bucket 0; the primary key of \<open>Unsequenced\<close> includes the bucket and allows
  the dequeue order, so it is taken to be tree, bucket, queue timestamp and identity
  hash.
\<close>

definition execInsertUnsequenced :: "database \<Rightarrow> UnsequencedRow \<Rightarrow> sqlError + database" where
  "execInsertUnsequenced db row =
     (if \<exists>r\<in>set (Unsequenced db).
           us_TreeId r = us_TreeId row \<and> us_Bucket r = us_Bucket row
           \<and> us_QueueTimestampNanos r = us_QueueTimestampNanos row
           \<and> us_LeafIdentityHash r = us_LeafIdentityHash row
      then Inl DuplicateEntry
      else Inr (db\<lparr>Unsequenced := Unsequenced db @ [row]\<rparr>))"

text \<open>
  \<open>insertSequencedLeafSQL\<close>. Modelled from the spec: \<open>SequencedLeafData keys:
  (TreeId, SequenceNumber) unique primary; (TreeId, LeafIdentityHash) unique\<close>.
\<close>

definition execInsertSequencedLeaf :: "database \<Rightarrow> SequencedLeafDataRow \<Rightarrow> sqlError + database" where
  "execInsertSequencedLeaf db row =
     (if \<exists>r\<in>set (SequencedLeafData db).
           sq_TreeId r = sq_TreeId row
           \<and> (sq_SequenceNumber r = sq_SequenceNumber row
              \<or> sq_LeafIdentityHash r = sq_LeafIdentityHash row)
      then Inl DuplicateEntry
      else Inr (db\<lparr>SequencedLeafData := SequencedLeafData db @ [row]\<rparr>))"

text \<open>\<open>isDuplicateErr\<close>, a helper that is not part of the sources read here: the error is
  the duplicate-entry error of MySQL.\<close>

definition isDuplicateErr :: "sqlError \<Rightarrow> bool" where
  "isDuplicateErr e \<longleftrightarrow> e = DuplicateEntry"

subsection \<open>Reading leaf data by identity hash\<close>

text \<open>\<open>dummyMerkleLeafHash\<close>: 32 times the character \<open>0\<close>.\<close>

definition dummyMerkleLeafHash :: bytes where
  "dummyMerkleLeafHash = replicate 32 48"

text \<open>
  \<open>selectLeavesByLeafIdentityHashSQL\<close>: the rows of \<open>LeafData\<close> of the tree whose hash
  is one of those asked for, each joined to the sequenced rows of the same tree and
  hash, or to NULLs when there is none.
\<close>

definition selectLeavesByLeafIdentityHash :: "database \<Rightarrow> bytes list \<Rightarrow> int64 \<Rightarrow> leafRow list" where
  "selectLeavesByLeafIdentityHash db hashes tid =
     concat (map (\<lambda>l.
        if ld_LeafIdentityHash l \<in> set hashes \<and> ld_TreeId l = tid
        then (case filter (\<lambda>s. ld_LeafIdentityHash l = sq_LeafIdentityHash s \<and> ld_TreeId l = sq_TreeId s)
                     (SequencedLeafData db) of
                [] \<Rightarrow> [\<lparr>lr_MerkleLeafHash = dummyMerkleLeafHash,
                         lr_LeafIdentityHash = ld_LeafIdentityHash l,
                         lr_LeafValue = ld_LeafValue l,
                         lr_SequenceNumber = - 1,
                         lr_ExtraData = ld_ExtraData l,
                         lr_QueueTimestampNanos = ld_QueueTimestampNanos l,
                         lr_IntegrateTimestampNanos = None\<rparr>]
              | ss \<Rightarrow> map (\<lambda>s. \<lparr>lr_MerkleLeafHash = dummyMerkleLeafHash,
                                  lr_LeafIdentityHash = ld_LeafIdentityHash l,
                                  lr_LeafValue = ld_LeafValue l,
                                  lr_SequenceNumber = - 1,
                                  lr_ExtraData = ld_ExtraData l,
                                  lr_QueueTimestampNanos = ld_QueueTimestampNanos l,
                                  lr_IntegrateTimestampNanos = Some (sq_IntegrateTimestampNanos s)\<rparr>) ss)
        else []) (LeafData db))"

text \<open>The loop over the rows in \<open>getLeavesByHashInternal\<close>.\<close>

fun scanLeaves :: "nat \<Rightarrow> leafRow list \<Rightarrow> LogLeaf list \<Rightarrow> error + LogLeaf list" where
  "scanLeaves hs [] ret = Inr ret"
| "scanLeaves hs (r # rows) ret =
     (if \<not> CheckValid (timeUnix0 (lr_QueueTimestampNanos r)) then Inl InvalidQueueTimestamp
      else if (case lr_IntegrateTimestampNanos r of None \<Rightarrow> False
               | Some its \<Rightarrow> \<not> CheckValid (timeUnix0 its))
      then Inl InvalidIntegrateTimestamp
      else if length (lr_MerkleLeafHash r) \<noteq> hs
      then Inl (BadScannedHashLength hs (length (lr_MerkleLeafHash r)))
      else scanLeaves hs rows
             (ret @ [\<lparr>MerkleLeafHash = lr_MerkleLeafHash r,
                       LeafValue = lr_LeafValue r,
                       ExtraData = lr_ExtraData r,
                       LeafIndex = lr_SequenceNumber r,
                       LeafIdentityHash = lr_LeafIdentityHash r,
                       QueueTimestamp = Some (timeUnix0 (lr_QueueTimestampNanos r)),
                       IntegrateTimestamp = map_option timeUnix0 (lr_IntegrateTimestampNanos r)\<rparr>]))"

definition getLeafDataByIdentityHash :: "logTreeTX \<Rightarrow> bytes list \<Rightarrow> error + LogLeaf list" where
  "getLeafDataByIdentityHash t leafHashes =
     scanLeaves (hashSizeBytes t) (selectLeavesByLeafIdentityHash (tx t) leafHashes (treeID t)) []"

subsection \<open>The transaction's QueueLeaves\<close>

text \<open>
  The first loop: every leaf must have an identity hash of the length of the hasher
  and is stamped with the queue timestamp. The leaves are the caller's objects, so the
  second component is what the caller's slice holds afterwards.
\<close>

fun stampLeaves :: "nat \<Rightarrow> Time \<Rightarrow> LogLeaf list \<Rightarrow> error option \<times> LogLeaf list" where
  "stampLeaves hs queueTimestamp [] = (None, [])"
| "stampLeaves hs queueTimestamp (l # ls) =
     (if length (LeafIdentityHash l) \<noteq> hs then (Some (BadQueuedHashLength hs), l # ls)
      else if \<not> CheckValid queueTimestamp
      then (Some InvalidQueueTimestamp, l\<lparr>QueueTimestamp := Some queueTimestamp\<rparr> # ls)
      else (case stampLeaves hs queueTimestamp ls of
              (e, ls') \<Rightarrow> (e, l\<lparr>QueueTimestamp := Some queueTimestamp\<rparr> # ls')))"

text \<open>
  The body of the loop over the sorted leaves: the leaf is inserted; on a duplicate the
  leaf is remembered at its original position and counted, otherwise its queue entry
  is inserted. Writing a slice beyond its length panics.
\<close>

definition queueLeaf :: "logTreeTX \<Rightarrow> leafAndPosition \<Rightarrow> LogLeaf option list \<Rightarrow> nat
    \<Rightarrow> (error + (LogLeaf option list \<times> nat)) \<times> logTreeTX" where
  "queueLeaf t ol existingLeaves existingCount =
     (case QueueTimestamp (leaf ol) of
        None \<Rightarrow> (Inl InvalidQueueTimestamp, t)
      | Some qTimestamp \<Rightarrow>
          if \<not> CheckValid qTimestamp then (Inl InvalidQueueTimestamp, t)
          else
            (let t1 = t\<lparr>leafInserts := leafInserts t @ [LeafIdentityHash (leaf ol)]\<rparr> in
             case execInsertLeafData (tx t1)
                    \<lparr>ld_TreeId = treeID t1,
                     ld_LeafIdentityHash = LeafIdentityHash (leaf ol),
                     ld_LeafValue = LeafValue (leaf ol),
                     ld_ExtraData = ExtraData (leaf ol),
                     ld_QueueTimestampNanos = UnixNano qTimestamp\<rparr> of
               Inl e \<Rightarrow>
                 if isDuplicateErr e
                 then (if idx ol < length existingLeaves
                       then (Inr (existingLeaves[idx ol := Some (leaf ol)], existingCount + 1), t1)
                       else (Inl (IndexOutOfRangePanic (idx ol) (length existingLeaves)), t1))
                 else (Inl (mysqlToGRPC e), t1)
             | Inr db1 \<Rightarrow>
                 (case execInsertUnsequenced db1
                         \<lparr>us_TreeId = treeID t1,
                          us_Bucket = 0,
                          us_LeafIdentityHash = LeafIdentityHash (leaf ol),
                          us_MerkleLeafHash = MerkleLeafHash (leaf ol),
                          us_QueueTimestampNanos = UnixNano qTimestamp\<rparr> of
                    Inl e \<Rightarrow> (Inl (mysqlToGRPC e), t1\<lparr>tx := db1\<rparr>)
                  | Inr db2 \<Rightarrow> (Inr (existingLeaves, existingCount), t1\<lparr>tx := db2\<rparr>))))"

text \<open>The loop: the body for each sorted leaf in turn, until one returns an error.\<close>

fun queueLoop :: "logTreeTX \<Rightarrow> leafAndPosition list \<Rightarrow> LogLeaf option list \<Rightarrow> nat
    \<Rightarrow> (error + (LogLeaf option list \<times> nat)) \<times> logTreeTX" where
  "queueLoop t [] existingLeaves existingCount = (Inr (existingLeaves, existingCount), t)"
| "queueLoop t (ol # ols) existingLeaves existingCount =
     (case queueLeaf t ol existingLeaves existingCount of
        (Inl e, t') \<Rightarrow> (Inl e, t')
      | (Inr (existingLeaves', existingCount'), t') \<Rightarrow> queueLoop t' ols existingLeaves' existingCount')"

text \<open>
  The hashes to retrieve: those of the remembered leaves, each once, in the order of
  the positions. The keys of \<open>uniqueLeafMap\<close> are at every moment the elements of
  \<open>toRetrieve\<close>, so the model keeps the list only.
\<close>

fun collateHashes :: "LogLeaf option list \<Rightarrow> bytes list \<Rightarrow> bytes list" where
  "collateHashes [] toRetrieve = toRetrieve"
| "collateHashes (None # es) toRetrieve = collateHashes es toRetrieve"
| "collateHashes (Some existing # es) toRetrieve =
     (if LeafIdentityHash existing \<in> set toRetrieve then collateHashes es toRetrieve
      else collateHashes es (toRetrieve @ [LeafIdentityHash existing]))"

text \<open>The last loop: every remembered leaf is replaced by the first result with its
  identity hash; a leaf without one is an error.\<close>

fun replaceExisting :: "LogLeaf list \<Rightarrow> LogLeaf option list \<Rightarrow> error + LogLeaf option list" where
  "replaceExisting results [] = Inr []"
| "replaceExisting results (None # es) =
     (case replaceExisting results es of Inl e \<Rightarrow> Inl e | Inr es' \<Rightarrow> Inr (None # es'))"
| "replaceExisting results (Some requested # es) =
     (case find (\<lambda>result. LeafIdentityHash result = LeafIdentityHash requested) results of
        None \<Rightarrow> Inl (ExistingLeafNotFound (LeafIdentityHash requested))
      | Some result \<Rightarrow>
          (case replaceExisting results es of Inl e \<Rightarrow> Inl e | Inr es' \<Rightarrow> Inr (Some result # es')))"

text \<open>
  \<open>logTreeTX.QueueLeaves\<close>. The result is the slice of existing leaves or the error,
  the transaction afterwards, and the caller's leaves afterwards.
\<close>

definition logTreeTX_QueueLeaves ::
    "(leafAndPosition list \<Rightarrow> leafAndPosition list) \<Rightarrow> logTreeTX \<Rightarrow> LogLeaf list \<Rightarrow> Time
      \<Rightarrow> (error + LogLeaf option list) \<times> logTreeTX \<times> LogLeaf list" where
  "logTreeTX_QueueLeaves sortSort t leaves queueTimestamp =
     (case stampLeaves (hashSizeBytes t) queueTimestamp leaves of
        (Some e, leaves') \<Rightarrow> (Inl e, t, leaves')
      | (None, leaves') \<Rightarrow>
          (case queueLoop t (sortLeavesForInsert sortSort leaves') (replicate (length leaves') None) 0 of
             (Inl e, t') \<Rightarrow> (Inl e, t', leaves')
           | (Inr (existingLeaves, existingCount), t') \<Rightarrow>
               if existingCount = 0 then (Inr existingLeaves, t', leaves')
               else
                 (let toRetrieve = collateHashes existingLeaves [] in
                  case getLeafDataByIdentityHash t' toRetrieve of
                    Inl e \<Rightarrow> (Inl (RetrieveExistingFailed e), t', leaves')
                  | Inr results \<Rightarrow>
                      if length results \<noteq> length toRetrieve
                      then (Inl (RetrieveAllExistingFailed (length results) (length toRetrieve)), t', leaves')
                      else (case replaceExisting results existingLeaves of
                              Inl e \<Rightarrow> (Inl e, t', leaves')
                            | Inr existingLeaves' \<Rightarrow> (Inr existingLeaves', t', leaves')))))"

subsection \<open>Opening a log transaction\<close>

text \<open>
  \<open>selectLatestSignedLogRootSQL\<close>: the tree head of the tree with the greatest
  timestamp, if there is one.
\<close>

definition selectLatestSignedLogRoot :: "database \<Rightarrow> int64 \<Rightarrow> TreeHeadRow option" where
  "selectLatestSignedLogRoot db tid =
     (case sortBy (\<lambda>a b. th_TreeHeadTimestamp b <s th_TreeHeadTimestamp a)
             (filter (\<lambda>r. th_TreeId r = tid) (TreeHead db)) of
        [] \<Rightarrow> None
      | r # rs \<Rightarrow> Some r)"

text \<open>\<open>fetchLatestRoot\<close>; \<open>MarshalBinary\<close> of \<open>types.LogRootV1\<close> is a parameter.\<close>

definition fetchLatestRoot ::
    "(LogRootV1 \<Rightarrow> error + bytes) \<Rightarrow> logTreeTX \<Rightarrow> error + (SignedLogRoot \<times> int64)" where
  "fetchLatestRoot MarshalBinary t =
     (case selectLatestSignedLogRoot (tx t) (treeID t) of
        None \<Rightarrow> Inl ErrTreeNeedsInit
      | Some r \<Rightarrow>
          (case MarshalBinary \<lparr>TreeSize = th_TreeSize r, RootHash = th_RootHash r,
                                TimestampNanos = th_TreeHeadTimestamp r, Metadata = []\<rparr> of
             Inl e \<Rightarrow> Inl e
           | Inr logRoot \<Rightarrow> Inr (\<lparr>LogRoot = logRoot\<rparr>, th_TreeRevision r)))"

text \<open>
  \<open>beginInternal\<close>. Modelled from the spec: \<open>beginTreeTx\<close> is not part of the sources
  read here; the spec: it opens a backend transaction, which here sees the tables of
  the database, for the id and the type of the tree and the hash size it is given. The
  result is the transaction, if one is handed out, and the error.
\<close>

definition beginInternal ::
    "nat \<Rightarrow> (LogRootV1 \<Rightarrow> error + bytes) \<Rightarrow> (bytes \<Rightarrow> error + LogRootV1) \<Rightarrow> database \<Rightarrow> Tree
      \<Rightarrow> logTreeTX option \<times> error option" where
  "beginInternal hasherSize MarshalBinary UnmarshalBinary db tree =
     (let ltx = \<lparr>tx = db, savepoint = None, leafInserts = [], treeID = TreeId tree,
                  treeType = TreeType tree, hashSizeBytes = hasherSize, writeRevision = 0,
                  root = \<lparr>TreeSize = 0, RootHash = [], TimestampNanos = 0, Metadata = []\<rparr>,
                  readRev = 0, slr = None, dequeued = []\<rparr> in
      case fetchLatestRoot MarshalBinary ltx of
        Inl e \<Rightarrow>
          if e = ErrTreeNeedsInit then (Some (ltx\<lparr>writeRevision := 0\<rparr>), Some e)
          else (None, Some e)
      | Inr (sroot, treeRevision) \<Rightarrow>
          (case UnmarshalBinary (LogRoot sroot) of
             Inl e \<Rightarrow> (None, Some e)
           | Inr r \<Rightarrow>
               (Some (ltx\<lparr>slr := Some sroot, readRev := treeRevision, root := r,
                          writeRevision := treeRevision + 1\<rparr>),
                None)))"

subsection \<open>The storage's QueueLeaves\<close>

text \<open>
  \<open>mySQLLogStorage.QueueLeaves\<close>: the transaction is closed, which rolls it back, on
  every error, and committed otherwise, which makes its tables those of the database.
  The leaf returned for a position without an existing leaf is the caller's leaf as the
  transaction left it.
\<close>

definition mySQLLogStorage_QueueLeaves ::
    "nat \<Rightarrow> (LogRootV1 \<Rightarrow> error + bytes) \<Rightarrow> (bytes \<Rightarrow> error + LogRootV1)
      \<Rightarrow> (leafAndPosition list \<Rightarrow> leafAndPosition list)
      \<Rightarrow> database \<Rightarrow> Tree \<Rightarrow> LogLeaf list \<Rightarrow> Time \<Rightarrow> (error + QueuedLogLeaf list) \<times> database" where
  "mySQLLogStorage_QueueLeaves hasherSize MarshalBinary UnmarshalBinary sortSort db tree leaves queueTimestamp =
     (case beginInternal hasherSize MarshalBinary UnmarshalBinary db tree of
        (t, Some e) \<Rightarrow> (Inl e, db)
      | (None, None) \<Rightarrow> (Inl ErrTreeNeedsInit, db)
      | (Some t, None) \<Rightarrow>
          (case logTreeTX_QueueLeaves sortSort t leaves queueTimestamp of
             (Inl e, t', leaves') \<Rightarrow> (Inl e, db)
           | (Inr existing, t', leaves') \<Rightarrow>
               (Inr (map (\<lambda>(e, l). case e of
                            Some x \<Rightarrow> \<lparr>Leaf = Some x,
                                        Status = Some (AlreadyExists, ''leaf already exists: %v'')\<rparr>
                          | None \<Rightarrow> \<lparr>Leaf = Some l, Status = None\<rparr>)
                         (zip existing leaves')),
                tx t')))"

section \<open>Adding sequenced leaves\<close>

text \<open>
  The body of the loop of \<open>AddSequencedLeaves\<close> for one sorted leaf. \<open>SAVEPOINT\<close>
  remembers the tables, \<open>ROLLBACK TO\<close> brings them back.
\<close>

definition addLeaf :: "logTreeTX \<Rightarrow> Time \<Rightarrow> leafAndPosition \<Rightarrow> QueuedLogLeaf option list
    \<Rightarrow> (error + QueuedLogLeaf option list) \<times> logTreeTX" where
  "addLeaf t timestamp ol res =
     (if length (LeafIdentityHash (leaf ol)) \<noteq> hashSizeBytes t
      then (Inl (StatusErr FailedPrecondition ''leaves[%d] has incorrect hash size %d, want %d''), t)
      else
        (let t0 = t\<lparr>savepoint := Some (tx t)\<rparr> in
         if \<not> idx ol < length res then (Inl (IndexOutOfRangePanic (idx ol) (length res)), t0)
         else
           (let res1 = res[idx ol := Some \<lparr>Leaf = None, Status = Some (OK, ''OK'')\<rparr>];
                t1 = t0\<lparr>leafInserts := leafInserts t0 @ [LeafIdentityHash (leaf ol)]\<rparr> in
            case execInsertLeafData (tx t1)
                   \<lparr>ld_TreeId = treeID t1,
                    ld_LeafIdentityHash = LeafIdentityHash (leaf ol),
                    ld_LeafValue = LeafValue (leaf ol),
                    ld_ExtraData = ExtraData (leaf ol),
                    ld_QueueTimestampNanos = UnixNano timestamp\<rparr> of
              Inl e \<Rightarrow>
                if isDuplicateErr e
                then (Inr (res1[idx ol := Some \<lparr>Leaf = None,
                             Status = Some (FailedPrecondition, ''conflicting LeafIdentityHash'')\<rparr>]),
                      t1)
                else (Inl (mysqlToGRPC e), t1)
            | Inr db1 \<Rightarrow>
                (case execInsertSequencedLeaf db1
                        \<lparr>sq_TreeId = treeID t1,
                         sq_LeafIdentityHash = LeafIdentityHash (leaf ol),
                         sq_MerkleLeafHash = MerkleLeafHash (leaf ol),
                         sq_SequenceNumber = LeafIndex (leaf ol),
                         sq_IntegrateTimestampNanos = 0\<rparr> of
                   Inl e \<Rightarrow>
                     if isDuplicateErr e
                     then (case savepoint t1 of
                             None \<Rightarrow> (Inl (mysqlToGRPC SavepointDoesNotExist), t1\<lparr>tx := db1\<rparr>)
                           | Some sp \<Rightarrow>
                               (Inr (res1[idx ol := Some \<lparr>Leaf = None,
                                       Status = Some (FailedPrecondition, ''conflicting LeafIndex'')\<rparr>]),
                                t1\<lparr>tx := sp\<rparr>))
                     else (Inl (mysqlToGRPC e), t1\<lparr>tx := db1\<rparr>)
                 | Inr db2 \<Rightarrow> (Inr res1, t1\<lparr>tx := db2\<rparr>)))))"

text \<open>The loop: the body for each sorted leaf in turn, until one returns an error.\<close>

fun addLoop :: "logTreeTX \<Rightarrow> Time \<Rightarrow> leafAndPosition list \<Rightarrow> QueuedLogLeaf option list
    \<Rightarrow> (error + QueuedLogLeaf option list) \<times> logTreeTX" where
  "addLoop t timestamp [] res = (Inr res, t)"
| "addLoop t timestamp (ol # ols) res =
     (case addLeaf t timestamp ol res of
        (Inl e, t') \<Rightarrow> (Inl e, t')
      | (Inr res', t') \<Rightarrow> addLoop t' timestamp ols res')"

text \<open>
  \<open>logTreeTX.AddSequencedLeaves\<close>: a first savepoint, the loop, and the release of the
  savepoint.
\<close>

definition logTreeTX_AddSequencedLeaves ::
    "(leafAndPosition list \<Rightarrow> leafAndPosition list) \<Rightarrow> logTreeTX \<Rightarrow> LogLeaf list \<Rightarrow> Time
      \<Rightarrow> (error + QueuedLogLeaf option list) \<times> logTreeTX" where
  "logTreeTX_AddSequencedLeaves sortSort t leaves timestamp =
     (case addLoop (t\<lparr>savepoint := Some (tx t)\<rparr>) timestamp (sortLeavesForInsert sortSort leaves)
             (replicate (length leaves) None) of
        (Inl e, t') \<Rightarrow> (Inl e, t')
      | (Inr res, t') \<Rightarrow> (Inr res, t'\<lparr>savepoint := None\<rparr>))"

section \<open>Rows and result slots\<close>

text \<open>
  Names for the rows that the insert statements of the two loops are given, for the
  result slot of \<open>AddSequencedLeaves\<close> with a given status, and for the leaf that
  \<open>getLeafDataByIdentityHash\<close> makes of a stored row and the integrate timestamp joined
  to it.
\<close>

abbreviation leafDataRowOf :: "int64 \<Rightarrow> LogLeaf \<Rightarrow> int64 \<Rightarrow> LeafDataRow" where
  "leafDataRowOf tid lf nanos \<equiv>
     \<lparr>ld_TreeId = tid, ld_LeafIdentityHash = LeafIdentityHash lf, ld_LeafValue = LeafValue lf,
      ld_ExtraData = ExtraData lf, ld_QueueTimestampNanos = nanos\<rparr>"

abbreviation sequencedRowOf :: "int64 \<Rightarrow> LogLeaf \<Rightarrow> SequencedLeafDataRow" where
  "sequencedRowOf tid lf \<equiv>
     \<lparr>sq_TreeId = tid, sq_LeafIdentityHash = LeafIdentityHash lf,
      sq_MerkleLeafHash = MerkleLeafHash lf, sq_SequenceNumber = LeafIndex lf,
      sq_IntegrateTimestampNanos = 0\<rparr>"

abbreviation unsequencedRowOf :: "int64 \<Rightarrow> LogLeaf \<Rightarrow> int64 \<Rightarrow> UnsequencedRow" where
  "unsequencedRowOf tid lf nanos \<equiv>
     \<lparr>us_TreeId = tid, us_Bucket = 0, us_LeafIdentityHash = LeafIdentityHash lf,
      us_MerkleLeafHash = MerkleLeafHash lf, us_QueueTimestampNanos = nanos\<rparr>"

abbreviation statusSlot :: "codes \<Rightarrow> string \<Rightarrow> QueuedLogLeaf option" where
  "statusSlot c m \<equiv> Some \<lparr>Leaf = None, Status = Some (c, m)\<rparr>"

abbreviation storedLeaf :: "LeafDataRow \<Rightarrow> int64 option \<Rightarrow> LogLeaf" where
  "storedLeaf l its \<equiv>
     \<lparr>MerkleLeafHash = dummyMerkleLeafHash, LeafValue = ld_LeafValue l,
      ExtraData = ld_ExtraData l, LeafIndex = - 1,
      LeafIdentityHash = ld_LeafIdentityHash l,
      QueueTimestamp = Some (timeUnix0 (ld_QueueTimestampNanos l)),
      IntegrateTimestamp = map_option timeUnix0 its\<rparr>"

text \<open>The leaf that the loop of \<open>getLeavesByRangeInternal\<close> makes of a row, and the
  row that \<open>selectLeavesByLeafIdentityHash\<close> yields for a stored leaf.\<close>

abbreviation scannedLeaf :: "leafRow \<Rightarrow> LogLeaf" where
  "scannedLeaf r \<equiv>
     \<lparr>MerkleLeafHash = lr_MerkleLeafHash r, LeafValue = lr_LeafValue r,
      ExtraData = lr_ExtraData r, LeafIndex = lr_SequenceNumber r,
      LeafIdentityHash = lr_LeafIdentityHash r,
      QueueTimestamp = Some (timeUnix0 (lr_QueueTimestampNanos r)),
      IntegrateTimestamp = map_option timeUnix0 (lr_IntegrateTimestampNanos r)\<rparr>"

abbreviation joinedRow :: "LeafDataRow \<Rightarrow> int64 option \<Rightarrow> leafRow" where
  "joinedRow l its \<equiv>
     \<lparr>lr_MerkleLeafHash = dummyMerkleLeafHash, lr_LeafIdentityHash = ld_LeafIdentityHash l,
      lr_LeafValue = ld_LeafValue l, lr_SequenceNumber = - 1, lr_ExtraData = ld_ExtraData l,
      lr_QueueTimestampNanos = ld_QueueTimestampNanos l, lr_IntegrateTimestampNanos = its\<rparr>"

text \<open>
  What the schema guarantees of the tables of the leaves, by the unique keys and the
  foreign key of the queue: no two leaves of a tree share an identity hash, no two
  sequenced entries of a tree do, and every queued entry has its leaf.
\<close>

definition schemaOK :: "database \<Rightarrow> bool" where
  "schemaOK db \<longleftrightarrow>
     distinct (map (\<lambda>l. (ld_TreeId l, ld_LeafIdentityHash l)) (LeafData db))
     \<and> distinct (map (\<lambda>s. (sq_TreeId s, sq_LeafIdentityHash s)) (SequencedLeafData db))
     \<and> (\<forall>u\<in>set (Unsequenced db). \<exists>l\<in>set (LeafData db).
           ld_TreeId l = us_TreeId u \<and> ld_LeafIdentityHash l = us_LeafIdentityHash u)"

text \<open>
  The identity hashes that a tree holds, and the leaf that
  \<open>getLeafDataByIdentityHash\<close> returns for the stored row of a tree with a given
  identity hash: the row of \<open>LeafData\<close> with the integrate timestamp of the sequenced
  entry joined to it, if there is one.
\<close>

definition leafHashes :: "database \<Rightarrow> int64 \<Rightarrow> bytes list" where
  "leafHashes db tid = map ld_LeafIdentityHash (filter (\<lambda>l. ld_TreeId l = tid) (LeafData db))"

definition joinedIntegrateTimestamp :: "database \<Rightarrow> LeafDataRow \<Rightarrow> int64 option" where
  "joinedIntegrateTimestamp db l =
     map_option sq_IntegrateTimestampNanos
       (find (\<lambda>s. ld_LeafIdentityHash l = sq_LeafIdentityHash s \<and> ld_TreeId l = sq_TreeId s)
          (SequencedLeafData db))"

definition canonicalLeaf :: "database \<Rightarrow> int64 \<Rightarrow> bytes \<Rightarrow> LogLeaf option" where
  "canonicalLeaf db tid h =
     map_option (\<lambda>l. storedLeaf l (joinedIntegrateTimestamp db l))
       (find (\<lambda>l. ld_TreeId l = tid \<and> ld_LeafIdentityHash l = h) (LeafData db))"

section \<open>Storing a signed log root\<close>

text \<open>
  Modelled from the spec: \<open>insertTreeHeadSQL\<close> and the schema of \<open>TreeHead\<close> are not
  part of the sources read here. The statement inserts one row of the six values it is
  given; the spec: \<open>TreeHead keyed by (TreeId, TreeRevision)\<close>, so a row whose tree
  and revision are taken fails with the duplicate-entry error. The result of a
  statement that succeeds is the number of rows it affected.
\<close>

definition execInsertTreeHead :: "database \<Rightarrow> TreeHeadRow \<Rightarrow> sqlError + (nat \<times> database)" where
  "execInsertTreeHead db row =
     (if \<exists>r\<in>set (TreeHead db). th_TreeId r = th_TreeId row \<and> th_TreeRevision r = th_TreeRevision row
      then Inl DuplicateEntry
      else Inr (1, db\<lparr>TreeHead := TreeHead db @ [row]\<rparr>))"

text \<open>
  \<open>StoreSignedLogRoot\<close>. \<open>UnmarshalBinary\<close> of \<open>types.LogRootV1\<close> is a parameter:
  the parser of the serialized root belongs to another package.
\<close>

definition StoreSignedLogRoot ::
    "(bytes \<Rightarrow> error + LogRootV1) \<Rightarrow> logTreeTX \<Rightarrow> SignedLogRoot \<Rightarrow> error option \<times> logTreeTX" where
  "StoreSignedLogRoot UnmarshalBinary t sroot =
     (case UnmarshalBinary (LogRoot sroot) of
        Inl e \<Rightarrow> (Some e, t)
      | Inr logRoot \<Rightarrow>
          if length (Metadata logRoot) \<noteq> 0 then (Some MetadataUnsupported, t)
          else (case execInsertTreeHead (tx t)
                       \<lparr>th_TreeId = treeID t,
                        th_TreeHeadTimestamp = TimestampNanos logRoot,
                        th_TreeSize = TreeSize logRoot,
                        th_RootHash = RootHash logRoot,
                        th_TreeRevision = writeRevision t,
                        th_RootSignature = []\<rparr> of
                  Inl e \<Rightarrow> (checkResultOkAndRowCountIs (Inl e) 1, t)
                | Inr (n, db) \<Rightarrow> (checkResultOkAndRowCountIs (Inr n) 1, t\<lparr>tx := db\<rparr>)))"

section \<open>Tree administration\<close>

fun TreeState_String :: "TreeState \<Rightarrow> string" where
  "TreeState_String UNKNOWN_TREE_STATE = ''UNKNOWN_TREE_STATE''"
| "TreeState_String ACTIVE = ''ACTIVE''"
| "TreeState_String FROZEN = ''FROZEN''"
| "TreeState_String DRAINING = ''DRAINING''"

fun TreeType_String :: "TreeType \<Rightarrow> string" where
  "TreeType_String UNKNOWN_TREE_TYPE = ''UNKNOWN_TREE_TYPE''"
| "TreeType_String LOG = ''LOG''"
| "TreeType_String PREORDERED_LOG = ''PREORDERED_LOG''"

text \<open>
  Modelled from the spec: \<open>toMillisSinceEpoch\<close> and \<open>fromMillisSinceEpoch\<close> are
  helpers that are not part of the sources read here; the spec: times are truncated to
  whole milliseconds.
\<close>

definition toMillisSinceEpoch :: "Time \<Rightarrow> int64" where
  "toMillisSinceEpoch t = word_of_int (t div 1000000)"

definition fromMillisSinceEpoch :: "int64 \<Rightarrow> Time" where
  "fromMillisSinceEpoch ms = sint ms * 1000000"

text \<open>
  \<open>durationpb\<close>: \<open>CheckValid\<close> refuses a nil duration and one beyond 10000 years
  (315576000000 seconds) either way; \<open>AsDuration\<close> saturates at the ends of \<open>int64\<close>.
  Go's division of a \<open>time.Duration\<close> truncates towards zero.
\<close>

definition Duration_CheckValid :: "int option \<Rightarrow> bool" where
  "Duration_CheckValid d =
     (case d of None \<Rightarrow> False
      | Some n \<Rightarrow> - 315576000000 * 1000000000 - 999999999 \<le> n
                  \<and> n \<le> 315576000000 * 1000000000 + 999999999)"

definition AsDuration :: "int option \<Rightarrow> int" where
  "AsDuration d =
     (case d of None \<Rightarrow> 0
      | Some n \<Rightarrow> max (- 9223372036854775808) (min 9223372036854775807 n))"

definition durationMillis :: "int \<Rightarrow> int64" where
  "durationMillis d = word_of_int (sgn d * (\<bar>d\<bar> div 1000000))"

text \<open>
  \<open>validateStorageSettings\<close>: the settings must be absent or an \<open>Any\<close> holding a
  \<open>mysqlpb.StorageOptions\<close>; \<open>MessageIs\<close> compares the name after the last slash of
  the type URL with the full name of the message.
\<close>

definition MessageIs :: "Any option \<Rightarrow> string \<Rightarrow> bool" where
  "MessageIs a name =
     (case a of None \<Rightarrow> False
      | Some x \<Rightarrow> rev (takeWhile (\<lambda>c. c \<noteq> CHR ''/'') (rev (type_url x))) = name)"

definition validateStorageSettings :: "Tree \<Rightarrow> error option" where
  "validateStorageSettings tree =
     (if MessageIs (StorageSettings tree) ''mysqlpb.StorageOptions'' then None
      else if StorageSettings tree = None then None
      else Some StorageSettingsInvalid)"

text \<open>
  \<open>GetTree\<close>: the row of the tree is read by \<open>readTree\<close>, a function of the package that
  is not part of the sources read here and is a parameter of the model.
\<close>

definition GetTree :: "(TreesRow \<Rightarrow> error + Tree) \<Rightarrow> database \<Rightarrow> int64 \<Rightarrow> error + Tree" where
  "GetTree readTree db treeId =
     (case find (\<lambda>r. tr_TreeId r = treeId) (Trees db) of
        None \<Rightarrow> Inl (StatusErr NotFound ''tree %v not found'')
      | Some r \<Rightarrow>
          (case readTree r of
             Inl e \<Rightarrow> Inl (ErrorReadingTree e)
           | Inr tree \<Rightarrow> Inr tree))"

text \<open>\<open>updateTreeSQL\<close>: seven columns of the rows of one tree are set.\<close>

definition execUpdateTree ::
    "database \<Rightarrow> string \<Rightarrow> string \<Rightarrow> string \<Rightarrow> string \<Rightarrow> int64 \<Rightarrow> int64 \<Rightarrow> bytes \<Rightarrow> int64 \<Rightarrow> database" where
  "execUpdateTree db treeState treeTypeName displayName description updateTimeMillis
       maxRootDurationMillis privateKey treeId =
     db\<lparr>Trees := map (\<lambda>r. if tr_TreeId r = treeId
                            then r\<lparr>tr_TreeState := treeState, tr_TreeType := treeTypeName,
                                  tr_DisplayName := displayName, tr_Description := description,
                                  tr_UpdateTimeMillis := updateTimeMillis,
                                  tr_MaxRootDurationMillis := maxRootDurationMillis,
                                  tr_PrivateKey := privateKey\<rparr>
                            else r) (Trees db)\<rparr>"

text \<open>
  \<open>UpdateTree\<close>. \<open>storage.ValidateTreeForUpdate\<close> belongs to another package and is a
  parameter; \<open>now\<close> is \<open>time.Now()\<close>. The caller's \<open>updateFunc\<close> changes the tree
  read from the row in any way it likes.
\<close>

definition UpdateTree ::
    "(TreesRow \<Rightarrow> error + Tree) \<Rightarrow> (Tree \<Rightarrow> Tree \<Rightarrow> error option) \<Rightarrow> Time \<Rightarrow> database \<Rightarrow> int64
      \<Rightarrow> (Tree \<Rightarrow> Tree) \<Rightarrow> (error + Tree) \<times> database" where
  "UpdateTree readTree ValidateTreeForUpdate now db treeId updateFunc =
     (case GetTree readTree db treeId of
        Inl e \<Rightarrow> (Inl e, db)
      | Inr tree0 \<Rightarrow>
          (let beforeUpdate = tree0; tree1 = updateFunc tree0 in
           case ValidateTreeForUpdate beforeUpdate tree1 of
             Some e \<Rightarrow> (Inl e, db)
           | None \<Rightarrow>
               (case validateStorageSettings tree1 of
                  Some e \<Rightarrow> (Inl e, db)
                | None \<Rightarrow>
                    (let nowMillis = toMillisSinceEpoch now;
                         tree2 = tree1\<lparr>UpdateTime := Some (fromMillisSinceEpoch nowMillis)\<rparr>
                     in if \<not> Duration_CheckValid (MaxRootDuration tree2)
                        then (Inl MaxRootDurationInvalid, db)
                        else (Inr tree2,
                              execUpdateTree db
                                (TreeState_String (TreeState tree2))
                                (TreeType_String (TreeType tree2))
                                (DisplayName tree2) (Description tree2) nowMillis
                                (durationMillis (AsDuration (MaxRootDuration tree2)))
                                [] (TreeId tree2))))))"

text \<open>
  \<open>validateDeleted\<close>: \<open>Deleted\<close> is a nullable column; a tree counts as deleted when
  the column holds true.
\<close>

definition validateDeleted :: "database \<Rightarrow> int64 \<Rightarrow> bool \<Rightarrow> error option" where
  "validateDeleted db treeId wantDeleted =
     (case find (\<lambda>r. tr_TreeId r = treeId) (Trees db) of
        None \<Rightarrow> Some (StatusErr NotFound ''tree %v not found'')
      | Some r \<Rightarrow>
          (let deleted = (tr_Deleted r = Some True) in
           if wantDeleted \<and> \<not> deleted
           then Some (StatusErr FailedPrecondition ''tree %v is not soft deleted'')
           else if \<not> wantDeleted \<and> deleted
           then Some (StatusErr FailedPrecondition ''tree %v already soft deleted'')
           else None))"

definition updateDeleted ::
    "(TreesRow \<Rightarrow> error + Tree) \<Rightarrow> database \<Rightarrow> int64 \<Rightarrow> bool \<Rightarrow> int64 option
      \<Rightarrow> (error + Tree) \<times> database" where
  "updateDeleted readTree db treeId deleted deleteTimeMillis =
     (case validateDeleted db treeId (\<not> deleted) of
        Some e \<Rightarrow> (Inl e, db)
      | None \<Rightarrow>
          (let db' = db\<lparr>Trees := map (\<lambda>r. if tr_TreeId r = treeId
                                           then r\<lparr>tr_Deleted := Some deleted,
                                                 tr_DeleteTimeMillis := deleteTimeMillis\<rparr>
                                           else r) (Trees db)\<rparr>
           in (GetTree readTree db' treeId, db')))"

definition SoftDeleteTree ::
    "(TreesRow \<Rightarrow> error + Tree) \<Rightarrow> Time \<Rightarrow> database \<Rightarrow> int64 \<Rightarrow> (error + Tree) \<times> database" where
  "SoftDeleteTree readTree now db treeId =
     updateDeleted readTree db treeId True (Some (toMillisSinceEpoch now))"

definition UndeleteTree ::
    "(TreesRow \<Rightarrow> error + Tree) \<Rightarrow> database \<Rightarrow> int64 \<Rightarrow> (error + Tree) \<times> database" where
  "UndeleteTree readTree db treeId = updateDeleted readTree db treeId False None"

text \<open>
  \<open>DELETE FROM Trees WHERE TreeId = ?\<close>. The schema is not part of the sources read
  here; whether its foreign keys on \<open>TreeId\<close> are declared \<open>ON DELETE CASCADE\<close> is the
  parameter \<open>cascade\<close>: with it the rows of the tree go from every table that refers
  to \<open>Trees\<close>, without it only the row of the tree goes.
\<close>

definition execDeleteTree :: "bool \<Rightarrow> database \<Rightarrow> int64 \<Rightarrow> database" where
  "execDeleteTree cascade db treeId =
     (if cascade
      then \<lparr>Trees = filter (\<lambda>r. tr_TreeId r \<noteq> treeId) (Trees db),
            TreeControl = filter (\<lambda>r. tc_TreeId r \<noteq> treeId) (TreeControl db),
            TreeHead = filter (\<lambda>r. th_TreeId r \<noteq> treeId) (TreeHead db),
            LeafData = filter (\<lambda>r. ld_TreeId r \<noteq> treeId) (LeafData db),
            SequencedLeafData = filter (\<lambda>r. sq_TreeId r \<noteq> treeId) (SequencedLeafData db),
            Unsequenced = filter (\<lambda>r. us_TreeId r \<noteq> treeId) (Unsequenced db)\<rparr>
      else db\<lparr>Trees := filter (\<lambda>r. tr_TreeId r \<noteq> treeId) (Trees db)\<rparr>)"

definition HardDeleteTree :: "bool \<Rightarrow> database \<Rightarrow> int64 \<Rightarrow> error option \<times> database" where
  "HardDeleteTree cascade db treeId =
     (case validateDeleted db treeId True of
        Some e \<Rightarrow> (Some e, db)
      | None \<Rightarrow>
          (let db1 = db\<lparr>TreeControl := filter (\<lambda>r. tc_TreeId r \<noteq> treeId) (TreeControl db)\<rparr>
           in (None, execDeleteTree cascade db1 treeId)))"

section \<open>Quota manager\<close>

text \<open>
  Modelled from the spec: the quota manager itself is not part of the sources read
  here, only its tests are. The spec: \<open>GetTokens(n, specs)\<close>: for each spec whose scope
  is Global-Write, check the unsequenced backlog; with \<open>use_select_count\<close> the backlog
  is the count of the rows of the queue table, otherwise it is read from the
  statistics of the table, which lag; if \<open>backlog + n > max_unsequenced_rows\<close>,
  return \<open>too-many-unsequenced-rows\<close>; all other scopes are unconstrained;
  \<open>PutTokens\<close>, \<open>ResetQuota\<close> and \<open>PeekTokens\<close> are no-ops other than their
  successful return.
\<close>

datatype quotaGroup = Global | TreeGroup | UserGroup

datatype quotaKind = Read | Write

record Spec =
  Group :: quotaGroup
  Kind :: quotaKind
  User :: string
  TreeID :: int64

record QuotaManager =
  MaxUnsequencedRows :: int
  UseSelectCount :: bool

datatype quotaError = ErrTooManyUnsequencedRows

text \<open>The state the quota manager reads: the queue table and the row count that the
  statistics of the table report for it.\<close>

record quotaDB =
  qdb_Unsequenced :: "UnsequencedRow list"
  qdb_tableRows :: int

definition countUnsequenced :: "QuotaManager \<Rightarrow> quotaDB \<Rightarrow> int" where
  "countUnsequenced m db =
     (if UseSelectCount m then int (length (qdb_Unsequenced db)) else qdb_tableRows db)"

fun GetTokens :: "QuotaManager \<Rightarrow> quotaDB \<Rightarrow> int \<Rightarrow> Spec list \<Rightarrow> quotaError option" where
  "GetTokens m db numTokens [] = None"
| "GetTokens m db numTokens (spec # specs) =
     (if Group spec \<noteq> Global \<or> Kind spec \<noteq> Write then GetTokens m db numTokens specs
      else if countUnsequenced m db + numTokens > MaxUnsequencedRows m
      then Some ErrTooManyUnsequencedRows
      else GetTokens m db numTokens specs)"

definition PutTokens :: "QuotaManager \<Rightarrow> quotaDB \<Rightarrow> int \<Rightarrow> Spec list \<Rightarrow> quotaError option \<times> quotaDB" where
  "PutTokens m db numTokens specs = (None, db)"

definition ResetQuota :: "QuotaManager \<Rightarrow> quotaDB \<Rightarrow> Spec list \<Rightarrow> quotaError option \<times> quotaDB" where
  "ResetQuota m db specs = (None, db)"

section \<open>Example states\<close>

text \<open>
  A tree of size 4 whose sequenced leaves are numbered 0, 1 and 3: sequence number 2
  is missing.
\<close>

definition rangeDb :: database where
  "rangeDb = \<lparr>Trees = [], TreeControl = [], TreeHead = [],
     LeafData =
       [\<lparr>ld_TreeId = 7, ld_LeafIdentityHash = [1], ld_LeafValue = [10], ld_ExtraData = [],
          ld_QueueTimestampNanos = 5\<rparr>,
        \<lparr>ld_TreeId = 7, ld_LeafIdentityHash = [2], ld_LeafValue = [20], ld_ExtraData = [],
          ld_QueueTimestampNanos = 6\<rparr>,
        \<lparr>ld_TreeId = 7, ld_LeafIdentityHash = [3], ld_LeafValue = [30], ld_ExtraData = [],
          ld_QueueTimestampNanos = 7\<rparr>],
     SequencedLeafData =
       [\<lparr>sq_TreeId = 7, sq_LeafIdentityHash = [1], sq_MerkleLeafHash = [1], sq_SequenceNumber = 0,
          sq_IntegrateTimestampNanos = 9\<rparr>,
        \<lparr>sq_TreeId = 7, sq_LeafIdentityHash = [2], sq_MerkleLeafHash = [2], sq_SequenceNumber = 1,
          sq_IntegrateTimestampNanos = 9\<rparr>,
        \<lparr>sq_TreeId = 7, sq_LeafIdentityHash = [3], sq_MerkleLeafHash = [3], sq_SequenceNumber = 3,
          sq_IntegrateTimestampNanos = 9\<rparr>],
     Unsequenced = []\<rparr>"

definition rangeTx :: "TreeType \<Rightarrow> uint64 \<Rightarrow> logTreeTX" where
  "rangeTx ty n =
     \<lparr>tx = rangeDb, savepoint = None, leafInserts = [], treeID = 7, treeType = ty,
      hashSizeBytes = 1, writeRevision = 2,
      root = \<lparr>TreeSize = n, RootHash = [], TimestampNanos = 100, Metadata = []\<rparr>,
      readRev = 1, slr = None, dequeued = []\<rparr>"

definition rangeLeaf :: "8 word \<Rightarrow> int64 \<Rightarrow> int \<Rightarrow> LogLeaf" where
  "rangeLeaf h i q =
     \<lparr>MerkleLeafHash = [h], LeafValue = [10 * h], ExtraData = [], LeafIndex = i,
      LeafIdentityHash = [h], QueueTimestamp = Some q, IntegrateTimestamp = Some 9\<rparr>"

text \<open>
  A transaction on tree 7 whose current root, stored at revision 1, has size 5 and
  timestamp 100, and a toy parser for serialized roots: the first byte is the tree
  size, the second the timestamp, the rest the metadata.
\<close>

definition storeTx :: logTreeTX where
  "storeTx =
     \<lparr>tx = \<lparr>Trees = [], TreeControl = [],
             TreeHead = [\<lparr>th_TreeId = 7, th_TreeHeadTimestamp = 100, th_TreeSize = 5,
                          th_RootHash = [], th_TreeRevision = 1, th_RootSignature = []\<rparr>],
             LeafData = [], SequencedLeafData = [], Unsequenced = []\<rparr>,
      savepoint = None, leafInserts = [], treeID = 7, treeType = LOG,
      hashSizeBytes = 1, writeRevision = 2,
      root = \<lparr>TreeSize = 5, RootHash = [], TimestampNanos = 100, Metadata = []\<rparr>,
      readRev = 1, slr = None, dequeued = []\<rparr>"

definition toyUnmarshal :: "bytes \<Rightarrow> error + LogRootV1" where
  "toyUnmarshal bs =
     (case bs of
        s # ts # md \<Rightarrow> Inr \<lparr>TreeSize = ucast s, RootHash = [], TimestampNanos = ucast ts, Metadata = md\<rparr>
      | _ \<Rightarrow> Inl UnmarshalFailed)"

text \<open>
  An admin database with the soft-deleted tree 7 and the live tree 8, each with a
  control row and a tree head, and a reader of tree rows and a validator for the
  examples.
\<close>

definition adminRow :: "int64 \<Rightarrow> bool option \<Rightarrow> TreesRow" where
  "adminRow i d =
     \<lparr>tr_TreeId = i, tr_TreeState = ''ACTIVE'', tr_TreeType = ''LOG'',
      tr_HashStrategy = ''RFC6962_SHA256'', tr_HashAlgorithm = ''SHA256'',
      tr_SignatureAlgorithm = ''ECDSA'', tr_DisplayName = ''old'', tr_Description = ''d'',
      tr_CreateTimeMillis = 1, tr_UpdateTimeMillis = 1, tr_PrivateKey = [],
      tr_PublicKey = [1, 2, 3], tr_MaxRootDurationMillis = 0, tr_Deleted = d,
      tr_DeleteTimeMillis = (if d = Some True then Some 2 else None)\<rparr>"

definition adminDb :: database where
  "adminDb =
     \<lparr>Trees = [adminRow 7 (Some True), adminRow 8 None],
      TreeControl =
        [\<lparr>tc_TreeId = 7, tc_SigningEnabled = True, tc_SequencingEnabled = True,
           tc_SequenceIntervalSeconds = 60\<rparr>,
         \<lparr>tc_TreeId = 8, tc_SigningEnabled = True, tc_SequencingEnabled = True,
           tc_SequenceIntervalSeconds = 60\<rparr>],
      TreeHead =
        [\<lparr>th_TreeId = 7, th_TreeHeadTimestamp = 100, th_TreeSize = 0, th_RootHash = [],
           th_TreeRevision = 0, th_RootSignature = []\<rparr>,
         \<lparr>th_TreeId = 8, th_TreeHeadTimestamp = 100, th_TreeSize = 0, th_RootHash = [],
           th_TreeRevision = 0, th_RootSignature = []\<rparr>],
      LeafData = [], SequencedLeafData = [], Unsequenced = []\<rparr>"

definition toyReadTree :: "TreesRow \<Rightarrow> error + Tree" where
  "toyReadTree r =
     Inr \<lparr>TreeId = tr_TreeId r,
          TreeState = (if tr_TreeState r = ''FROZEN'' then FROZEN else ACTIVE),
          TreeType = (if tr_TreeType r = ''PREORDERED_LOG'' then PREORDERED_LOG else LOG),
          DisplayName = tr_DisplayName r, Description = tr_Description r,
          CreateTime = Some (fromMillisSinceEpoch (tr_CreateTimeMillis r)),
          UpdateTime = Some (fromMillisSinceEpoch (tr_UpdateTimeMillis r)),
          MaxRootDuration = Some (sint (tr_MaxRootDurationMillis r) * 1000000),
          StorageSettings = None,
          Deleted = (tr_Deleted r = Some True),
          DeleteTime = map_option fromMillisSinceEpoch (tr_DeleteTimeMillis r)\<rparr>"

definition toyValidate :: "Tree \<Rightarrow> Tree \<Rightarrow> error option" where
  "toyValidate old new = (if TreeId old \<noteq> TreeId new then Some ValidationFailed else None)"

text \<open>The queue of the quota tests, with a given number of unsequenced rows, and the
  specs of the tests.\<close>

definition quotaDb :: "nat \<Rightarrow> quotaDB" where
  "quotaDb n =
     \<lparr>qdb_Unsequenced = replicate n \<lparr>us_TreeId = 7, us_Bucket = 0, us_LeafIdentityHash = [],
                                         us_MerkleLeafHash = [], us_QueueTimestampNanos = 0\<rparr>,
      qdb_tableRows = 0\<rparr>"

definition globalWrite :: "Spec list" where
  "globalWrite = [\<lparr>Group = Global, Kind = Write, User = [], TreeID = 0\<rparr>]"

definition unlimitedQuotas :: "Spec list" where
  "unlimitedQuotas =
     [\<lparr>Group = UserGroup, Kind = Read, User = ''dylan'', TreeID = 0\<rparr>,
      \<lparr>Group = TreeGroup, Kind = Read, User = [], TreeID = 7\<rparr>,
      \<lparr>Group = Global, Kind = Read, User = [], TreeID = 0\<rparr>,
      \<lparr>Group = UserGroup, Kind = Write, User = ''dylan'', TreeID = 0\<rparr>,
      \<lparr>Group = TreeGroup, Kind = Write, User = [], TreeID = 7\<rparr>]"

text \<open>
  A tree with one queued leaf and a batch of four leaves for it: the second leaf is the
  one the tree holds and the first and the third share an identity hash. The hashes
  have the 32 bytes of SHA-256.
\<close>

definition h32 :: "8 word \<Rightarrow> bytes" where
  "h32 k = replicate 31 0 @ [k]"

definition mkLeaf :: "8 word \<Rightarrow> 8 word \<Rightarrow> int64 \<Rightarrow> LogLeaf" where
  "mkLeaf k v i =
     \<lparr>MerkleLeafHash = h32 k, LeafValue = [v], ExtraData = [], LeafIndex = i,
      LeafIdentityHash = h32 k, QueueTimestamp = None, IntegrateTimestamp = None\<rparr>"

definition toyMarshal :: "LogRootV1 \<Rightarrow> error + bytes" where
  "toyMarshal r = Inr [ucast (TreeSize r), ucast (TimestampNanos r)]"

definition queueDb :: database where
  "queueDb =
     \<lparr>Trees = [], TreeControl = [],
      TreeHead = [\<lparr>th_TreeId = 7, th_TreeHeadTimestamp = 100, th_TreeSize = 0,
                   th_RootHash = [], th_TreeRevision = 1, th_RootSignature = []\<rparr>],
      LeafData = [\<lparr>ld_TreeId = 7, ld_LeafIdentityHash = h32 2, ld_LeafValue = [20],
                   ld_ExtraData = [], ld_QueueTimestampNanos = 5\<rparr>],
      SequencedLeafData = [],
      Unsequenced = [\<lparr>us_TreeId = 7, us_Bucket = 0, us_LeafIdentityHash = h32 2,
                      us_MerkleLeafHash = h32 2, us_QueueTimestampNanos = 5\<rparr>]\<rparr>"

definition queueTree :: Tree where
  "queueTree =
     \<lparr>TreeId = 7, TreeState = ACTIVE, TreeType = LOG, DisplayName = [], Description = [],
      CreateTime = None, UpdateTime = None, MaxRootDuration = None,
      StorageSettings = None, Deleted = False, DeleteTime = None\<rparr>"

definition queueTx :: logTreeTX where
  "queueTx =
     \<lparr>tx = queueDb, savepoint = None, leafInserts = [], treeID = 7, treeType = LOG,
      hashSizeBytes = 32, writeRevision = 2,
      root = \<lparr>TreeSize = 0, RootHash = [], TimestampNanos = 100, Metadata = []\<rparr>,
      readRev = 1, slr = Some \<lparr>LogRoot = [0, 100]\<rparr>, dequeued = []\<rparr>"

definition queueBatch :: "LogLeaf list" where
  "queueBatch = [mkLeaf 3 30 0, mkLeaf 2 99 0, mkLeaf 3 31 0, mkLeaf 1 10 0]"

text \<open>
  A pre-ordered tree whose leaf with hash 2 is sequenced at 0, and a batch for it: in
  sorted order the leaves go to 1, then conflict on the hash, on index 1 and on
  index 0.
\<close>

definition addTx :: logTreeTX where
  "addTx =
     \<lparr>tx = queueDb\<lparr>SequencedLeafData :=
                [\<lparr>sq_TreeId = 7, sq_LeafIdentityHash = h32 2, sq_MerkleLeafHash = h32 2,
                   sq_SequenceNumber = 0, sq_IntegrateTimestampNanos = 9\<rparr>]\<rparr>,
      savepoint = None, leafInserts = [], treeID = 7, treeType = PREORDERED_LOG,
      hashSizeBytes = 32, writeRevision = 2,
      root = \<lparr>TreeSize = 1, RootHash = [], TimestampNanos = 100, Metadata = []\<rparr>,
      readRev = 1, slr = None, dequeued = []\<rparr>"

definition addBatch :: "LogLeaf list" where
  "addBatch = [mkLeaf 4 40 0, mkLeaf 3 30 1, mkLeaf 2 21 2, mkLeaf 1 10 1]"

section \<open>Properties of the range read\<close>

lemma sint64_bounds:
  fixes x :: int64
  shows "- 9223372036854775808 \<le> sint x" "sint x < 9223372036854775808"
  using sint_ge [of x] sint_lt [of x] by simp_all

lemma sint64_in_range:
  fixes k :: int
  assumes "- 9223372036854775808 \<le> k" "k < 9223372036854775808"
  shows "signed_take_bit 63 k = k"
  using assms by (simp add: signed_take_bit_int_eq_self)

lemma sint64_add:
  fixes a b :: int64
  assumes "- 9223372036854775808 \<le> sint a + sint b" "sint a + sint b < 9223372036854775808"
  shows "sint (a + b) = sint a + sint b"
  using assms by (simp add: sint_word_ariths sint64_in_range)

lemma sint64_diff:
  fixes a b :: int64
  assumes "- 9223372036854775808 \<le> sint a - sint b" "sint a - sint b < 9223372036854775808"
  shows "sint (a - b) = sint a - sint b"
  using assms by (simp add: sint_word_ariths sint64_in_range)

lemma uint64_sint:
  fixes x :: int64
  shows "uint x = (if 0 \<le> sint x then sint x else sint x + 18446744073709551616)"
proof (cases "0 \<le> sint x")
  case True
  then have "sint x mod 18446744073709551616 = sint x"
    using sint64_bounds(2) [of x] by simp
  then show ?thesis using True uint_sint [of x] by (simp add: take_bit_eq_mod)
next
  case False
  then have "(sint x + 18446744073709551616) mod 18446744073709551616 = sint x + 18446744073709551616"
    using sint64_bounds(1) [of x] by (intro mod_pos_pos_trivial) simp_all
  then have "sint x mod 18446744073709551616 = sint x + 18446744073709551616"
    by simp
  then show ?thesis using False uint_sint [of x] by (simp add: take_bit_eq_mod)
qed

text \<open>A start that is not negative and not below the unsigned tree size is not below the
  tree size read as \<open>int64\<close> either.\<close>

lemma unsigned_le_imp_signed_le:
  fixes a b :: int64
  assumes "0 \<le>s b" "a \<le> b"
  shows "a \<le>s b"
proof -
  from assms(1) have b0: "0 \<le> sint b" by (simp add: word_sle_eq)
  from assms(2) have le: "uint a \<le> uint b" by (simp add: word_le_def)
  show ?thesis
    using le b0 sint64_bounds [of a] sint64_bounds [of b]
    by (simp add: uint64_sint word_sle_eq split: if_splits)
qed

lemma clip_sint:
  fixes start count ts :: int64
  assumes "0 \<le>s start" "start <s ts" "0 <s count"
  shows "sint (start + (if ts - start <s count then ts - start else count))
         = min (sint start + sint count) (sint ts)"
proof -
  from assms have s0: "0 \<le> sint start" and st: "sint start < sint ts" and c0: "0 < sint count"
    by (simp_all add: word_sle_eq word_sless_alt)
  have d: "sint (ts - start) = sint ts - sint start"
    using s0 st sint64_bounds [of ts] by (intro sint64_diff) simp_all
  show ?thesis
  proof (cases "ts - start <s count")
    case True
    then have "sint ts - sint start < sint count" by (simp add: word_sless_alt d)
    then show ?thesis using True by simp
  next
    case False
    then have le: "sint count \<le> sint ts - sint start" by (simp add: word_sless_alt d)
    have "sint (start + count) = sint start + sint count"
      using s0 c0 le sint64_bounds [of ts] by (intro sint64_add) simp_all
    then show ?thesis using False le by simp
  qed
qed

text \<open>A timestamp read back from an \<open>int64\<close> column is always a valid protobuf
  timestamp: the years 1677 to 2262 lie within 1 to 9999.\<close>

lemma CheckValid_timeUnix0: "CheckValid (timeUnix0 n)"
  using sint64_bounds [of n] unfolding CheckValid_def timeUnix0_def by simp

lemma selectLeavesByRange_integrated:
  "r \<in> set (selectLeavesByRange db lo hi tid) \<Longrightarrow> lr_IntegrateTimestampNanos r \<noteq> None"
  unfolding selectLeavesByRange_def by (auto split: if_splits)

text \<open>The rows of the range statement lie in the range asked for and are sequenced
  leaves of the tree; the loop over the rows reads them for as long as they are numbered
  densely from \<open>wantIndex\<close>, and stops at the first row that is not.\<close>

lemma selectLeavesByRange_bounds:
  assumes "r \<in> set (selectLeavesByRange db lo hi tid)"
  shows "lo \<le>s lr_SequenceNumber r \<and> lr_SequenceNumber r <s hi"
    and "\<exists>s\<in>set (SequencedLeafData db). sq_TreeId s = tid
           \<and> sq_SequenceNumber s = lr_SequenceNumber r
           \<and> sq_LeafIdentityHash s = lr_LeafIdentityHash r"
  using assms unfolding selectLeavesByRange_def by (auto split: if_splits)

lemma scanRange_all:
  "\<forall>r\<in>set rows. lr_IntegrateTimestampNanos r \<noteq> None \<Longrightarrow>
   \<forall>k<length rows. lr_SequenceNumber (rows ! k) = w + of_nat k \<Longrightarrow>
   scanRange ts w rows ret = Inr (ret @ map scannedLeaf rows)"
proof (induction rows arbitrary: w ret)
  case Nil
  then show ?case by simp
next
  case (Cons r rows)
  from Cons.prems(1) obtain it where it: "lr_IntegrateTimestampNanos r = Some it" by auto
  from Cons.prems(2) have r: "lr_SequenceNumber r = w" by auto
  have rest: "\<forall>k<length rows. lr_SequenceNumber (rows ! k) = (w + 1) + of_nat k"
  proof (intro allI impI)
    fix k assume "k < length rows"
    then have "lr_SequenceNumber ((r # rows) ! Suc k) = w + of_nat (Suc k)"
      using Cons.prems(2) by (metis Suc_less_eq length_Cons)
    then show "lr_SequenceNumber (rows ! k) = (w + 1) + of_nat k" by (simp add: add.assoc add.commute)
  qed
  from Cons.IH [OF _ rest] Cons.prems(1)
  have "scanRange ts (w + 1) rows ret' = Inr (ret' @ map scannedLeaf rows)" for ret'
    by simp
  then show ?case using r it by (simp add: CheckValid_timeUnix0)
qed

lemma scanRange_break:
  "\<forall>x\<in>set (pre @ r # post). lr_IntegrateTimestampNanos x \<noteq> None \<Longrightarrow>
   \<forall>k<length pre. lr_SequenceNumber (pre ! k) = w + of_nat k \<Longrightarrow>
   lr_SequenceNumber r \<noteq> w + of_nat (length pre) \<Longrightarrow>
   scanRange ts w (pre @ r # post) ret
     = (if w + of_nat (length pre) <s ts
        then Inl (UnexpectedIndex (lr_SequenceNumber r) (w + of_nat (length pre)))
        else Inr (ret @ map scannedLeaf pre))"
proof (induction pre arbitrary: w ret)
  case Nil
  then show ?case by (auto split: option.splits)
next
  case (Cons p pre)
  from Cons.prems(2) have p: "lr_SequenceNumber p = w" by auto
  from Cons.prems(1) obtain it where it: "lr_IntegrateTimestampNanos p = Some it" by auto
  have rest: "\<forall>k<length pre. lr_SequenceNumber (pre ! k) = (w + 1) + of_nat k"
  proof (intro allI impI)
    fix k assume "k < length pre"
    then have "lr_SequenceNumber ((p # pre) ! Suc k) = w + of_nat (Suc k)"
      using Cons.prems(2) by (metis Suc_less_eq length_Cons)
    then show "lr_SequenceNumber (pre ! k) = (w + 1) + of_nat k" by (simp add: add.assoc add.commute)
  qed
  have eq: "w + of_nat (length (p # pre)) = (w + 1) + of_nat (length pre)" by simp
  have "scanRange ts (w + 1) (pre @ r # post) ret'
     = (if (w + 1) + of_nat (length pre) <s ts
        then Inl (UnexpectedIndex (lr_SequenceNumber r) ((w + 1) + of_nat (length pre)))
        else Inr (ret' @ map scannedLeaf pre))" for ret'
    by (rule Cons.IH [OF _ rest]) (use Cons.prems eq in \<open>auto simp: add.assoc\<close>)
  then show ?case
    using p it by (simp add: CheckValid_timeUnix0 ac_simps)
qed

lemma scanRange_Inr:
  "scanRange ts w rows ret = Inr out \<Longrightarrow>
   \<exists>n\<le>length rows. out = ret @ map scannedLeaf (take n rows)
      \<and> (\<forall>k<n. lr_SequenceNumber (rows ! k) = w + of_nat k)"
proof (induction rows arbitrary: w ret)
  case Nil
  then show ?case by simp
next
  case (Cons r rows)
  from Cons.prems obtain it where it: "lr_IntegrateTimestampNanos r = Some it"
    by (cases "lr_IntegrateTimestampNanos r") auto
  show ?case
  proof (cases "lr_SequenceNumber r = w")
    case False
    with Cons.prems it have "out = ret" by (simp split: if_splits)
    then show ?thesis by (intro exI [of _ 0]) simp
  next
    case True
    with Cons.prems it
    have "scanRange ts (w + 1) rows (ret @ [scannedLeaf r]) = Inr out"
      by (simp add: CheckValid_timeUnix0)
    from Cons.IH [OF this] obtain n where n: "n \<le> length rows"
      "out = (ret @ [scannedLeaf r]) @ map scannedLeaf (take n rows)"
      "\<forall>k<n. lr_SequenceNumber (rows ! k) = (w + 1) + of_nat k"
      by blast
    have "\<forall>k<Suc n. lr_SequenceNumber ((r # rows) ! k) = w + of_nat k"
    proof (intro allI impI)
      fix k assume k: "k < Suc n"
      show "lr_SequenceNumber ((r # rows) ! k) = w + of_nat k"
      proof (cases k)
        case 0
        with True show ?thesis by simp
      next
        case (Suc j)
        with k n(3) show ?thesis by (simp add: add.assoc add.commute)
      qed
    qed
    with n(1,2) show ?thesis by (intro exI [of _ "Suc n"]) simp
  qed
qed

lemma dense_sint:
  fixes start hi :: int64
  assumes "\<forall>k<n. start + of_nat k <s hi"
  shows "k < n \<Longrightarrow> sint (start + of_nat k) = sint start + int k"
proof (induction k)
  case 0
  then show ?case by simp
next
  case (Suc k)
  then have ih: "sint (start + of_nat k) = sint start + int k" and k: "k < n" by simp_all
  from assms k have "sint (start + of_nat k) < sint hi" by (simp add: word_sless_alt)
  with sint64_bounds [of hi] sint64_bounds [of "start + of_nat k"]
  have "sint ((start + of_nat k) + 1) = sint (start + of_nat k) + sint (1 :: int64)"
    by (intro sint64_add) simp_all
  with ih show ?case by (simp add: ac_simps)
qed

lemma sint_add_le:
  fixes a b :: int64
  assumes "0 \<le> sint a" "0 \<le> sint b"
  shows "sint (a + b) \<le> sint a + sint b"
proof (cases "sint a + sint b < 9223372036854775808")
  case True
  with assms have "sint (a + b) = sint a + sint b" by (intro sint64_add) simp_all
  then show ?thesis by simp
next
  case False
  with sint64_bounds(2) [of "a + b"] show ?thesis by simp
qed

lemma clipCount_Inr:
  assumes "0 <s count" "0 \<le>s start" "clipCount t start count = Inr c"
  shows "c = (if treeType t = LOG \<and> TreeSize (root t) - start <s count
              then TreeSize (root t) - start else count)"
    and "0 < sint c" and "sint c \<le> sint count"
    and "treeType t = LOG \<Longrightarrow> start <s TreeSize (root t)
           \<and> sint (start + c) = min (sint start + sint count) (sint (TreeSize (root t)))"
proof -
  show c: "c = (if treeType t = LOG \<and> TreeSize (root t) - start <s count
              then TreeSize (root t) - start else count)"
    using assms(3) by (auto simp: clipCount_def Let_def split: if_splits)
  have log: "start <s TreeSize (root t)" if "treeType t = LOG"
    using assms(3) that by (auto simp: clipCount_def Let_def word_sle_eq word_sless_alt split: if_splits)
  from assms have s0: "0 \<le> sint start" and c0: "0 < sint count"
    by (simp_all add: word_sle_eq word_sless_alt)
  have d: "sint (TreeSize (root t) - start) = sint (TreeSize (root t)) - sint start"
    if "treeType t = LOG"
    using s0 log [OF that] sint64_bounds [of "TreeSize (root t)"]
    by (intro sint64_diff) (simp_all add: word_sless_alt)
  show "0 < sint c"
    using c c0 d log by (auto simp: word_sless_alt)
  show "sint c \<le> sint count"
    using c by (auto simp: word_sless_alt)
  show "start <s TreeSize (root t)
           \<and> sint (start + c) = min (sint start + sint count) (sint (TreeSize (root t)))"
    if "treeType t = LOG"
    using clip_sint [OF assms(2) log [OF that] assms(1)] log [OF that] c that by auto
qed


lemma getLeavesByRange_scan:
  assumes v: "0 <s count" "0 \<le>s start" and l: "treeType t = LOG \<longrightarrow> start <s TreeSize (root t)"
  defines "c \<equiv> (if treeType t = LOG \<and> TreeSize (root t) - start <s count
                  then TreeSize (root t) - start else count)"
  shows "clipCount t start count = Inr c"
    and "GetLeavesByRange t start count
      = (if \<not> makeSliceCapOK c then Inl MakeSliceCapPanic
         else scanRange (TreeSize (root t)) start
                (selectLeavesByRange (tx t) start (start + c) (treeID t)) [])"
proof -
  from v have n: "\<not> count \<le>s 0" "\<not> start <s 0"
    by (auto simp: word_sle_eq word_sless_alt)
  show clip: "clipCount t start count = Inr c"
    using v l unfolding c_def clipCount_def Let_def
    by (auto simp: word_sle_eq word_sless_alt)
  show "GetLeavesByRange t start count
      = (if \<not> makeSliceCapOK c then Inl MakeSliceCapPanic
         else scanRange (TreeSize (root t)) start
                (selectLeavesByRange (tx t) start (start + c) (treeID t)) [])"
    using n by (simp add: GetLeavesByRange_def getLeavesByRangeInternal_def clip Let_def)
qed

lemma getLeavesByRange_Inr:
  assumes "GetLeavesByRange t start count = Inr out"
  shows "0 <s count \<and> 0 \<le>s start \<and> (treeType t = LOG \<longrightarrow> start <s TreeSize (root t))"
  using assms
  by (auto simp: GetLeavesByRange_def getLeavesByRangeInternal_def clipCount_def Let_def
        word_sle_eq word_sless_alt split: if_splits sum.splits)

text \<open>
  Claim C3 as stated fails: a missing leaf below the tree size is noticed only when a
  later row of the queried range follows it. In a \<open>LOG\<close> tree of size 4 whose leaf 2
  is missing, reading three leaves from 0 returns the leaves 0 and 1, and reading one
  leaf from 2 returns no leaf; neither call reports an error.
\<close>

theorem GetLeavesByRange_short_read_counterexample:
  "treeType (rangeTx LOG 4) = LOG
   \<and> TreeSize (root (rangeTx LOG 4)) = 4
   \<and> map sq_SequenceNumber (SequencedLeafData (tx (rangeTx LOG 4))) = [0, 1, 3]
   \<and> GetLeavesByRange (rangeTx LOG 4) 0 3 = Inr [rangeLeaf 1 0 5, rangeLeaf 2 1 6]
   \<and> GetLeavesByRange (rangeTx LOG 4) 2 1 = Inr []"
  by code_simp

text \<open>
  Claim C3, amended. \<open>GetLeavesByRange(start, count)\<close> refuses a count that is not
  positive and a negative start as invalid arguments. For a \<open>LOG\<close> tree a start at or
  beyond the tree size (as the unsigned number of the root, or read as \<open>int64\<close>) is
  refused as out of range and the count is clipped to \<open>tree_size - start\<close>; for the
  other tree types the count is used as given. With \<open>c\<close> the clipped count: a \<open>c\<close>
  that \<open>make\<close> does not admit as a capacity panics. Otherwise the rows with sequence
  numbers in \<open>[start, start + c)\<close> are read in order for as long as they are numbered
  \<open>start, start + 1, ...\<close>. When all of them are, their leaves are returned, fewer
  than \<open>c\<close> when the range holds fewer rows. At the first row that is numbered
  otherwise, the call fails with the unexpected-index error when the index expected
  there is below the tree size, and returns the leaves read so far when it is not. So
  whatever is returned is numbered densely from \<open>start\<close>, as numbers and not only
  modulo \<open>2^64\<close>, holds at most \<open>count\<close> leaves, none at or beyond the tree size of a
  \<open>LOG\<close> tree, and each is a sequenced leaf of the tree; a missing leaf is an error
  only when a later row of the queried range follows it below the tree size.
\<close>

theorem GetLeavesByRange_returns_dense_prefix:
  fixes t start count
  defines "ts \<equiv> TreeSize (root t)"
  defines "c \<equiv> (if treeType t = LOG \<and> ts - start <s count then ts - start else count)"
  defines "rows \<equiv> selectLeavesByRange (tx t) start (start + c) (treeID t)"
  shows
   "(count \<le>s 0 \<longrightarrow> GetLeavesByRange t start count
        = Inl (StatusErr InvalidArgument ''invalid count %d, want > 0''))
   \<and> (start <s 0 \<longrightarrow> (\<exists>m. GetLeavesByRange t start count = Inl (StatusErr InvalidArgument m)))
   \<and> (0 <s count \<and> 0 \<le>s start \<and> treeType t = LOG \<and> (ts \<le> start \<or> ts \<le>s start)
      \<longrightarrow> (\<exists>m. GetLeavesByRange t start count = Inl (StatusErr OutOfRange m)))
   \<and> (0 <s count \<and> 0 \<le>s start \<and> (treeType t = LOG \<longrightarrow> start <s ts) \<longrightarrow>
        (\<not> makeSliceCapOK c \<longrightarrow> GetLeavesByRange t start count = Inl MakeSliceCapPanic)
      \<and> (makeSliceCapOK c \<longrightarrow>
           (\<forall>n\<le>length rows. (\<forall>k<n. lr_SequenceNumber (rows ! k) = start + of_nat k) \<longrightarrow>
               (n = length rows \<longrightarrow> GetLeavesByRange t start count = Inr (map scannedLeaf rows))
             \<and> (n < length rows \<and> lr_SequenceNumber (rows ! n) \<noteq> start + of_nat n \<longrightarrow>
                  GetLeavesByRange t start count
                    = (if start + of_nat n <s ts
                       then Inl (UnexpectedIndex (lr_SequenceNumber (rows ! n)) (start + of_nat n))
                       else Inr (map scannedLeaf (take n rows)))))))
   \<and> (\<forall>out. GetLeavesByRange t start count = Inr out \<longrightarrow>
        int (length out) \<le> sint count
      \<and> (treeType t = LOG \<longrightarrow> sint start + int (length out) \<le> sint ts)
      \<and> (\<forall>k<length out.
            LeafIndex (out ! k) = start + of_nat k
          \<and> sint (LeafIndex (out ! k)) = sint start + int k
          \<and> k < length rows \<and> out ! k = scannedLeaf (rows ! k)
          \<and> (\<exists>s\<in>set (SequencedLeafData (tx t)). sq_TreeId s = treeID t
                \<and> sq_SequenceNumber s = LeafIndex (out ! k)
                \<and> sq_LeafIdentityHash s = LeafIdentityHash (out ! k))))"
proof -
  have scan: "GetLeavesByRange t start count
      = (if \<not> makeSliceCapOK c then Inl MakeSliceCapPanic else scanRange ts start rows [])"
    and clip: "clipCount t start count = Inr c"
    if "0 <s count \<and> 0 \<le>s start \<and> (treeType t = LOG \<longrightarrow> start <s ts)"
  proof -
    from that have v: "0 <s count" "0 \<le>s start" and l: "treeType t = LOG \<longrightarrow> start <s TreeSize (root t)"
      by (simp_all add: ts_def)
    show "GetLeavesByRange t start count
      = (if \<not> makeSliceCapOK c then Inl MakeSliceCapPanic else scanRange ts start rows [])"
      unfolding rows_def c_def ts_def by (rule getLeavesByRange_scan(2) [OF v l])
    show "clipCount t start count = Inr c"
      unfolding rows_def c_def ts_def by (rule getLeavesByRange_scan(1) [OF v l])
  qed
  have i: "\<forall>r\<in>set rows. lr_IntegrateTimestampNanos r \<noteq> None"
    unfolding rows_def using selectLeavesByRange_integrated by blast
  show ?thesis
  proof (intro conjI impI allI)
  assume "count \<le>s 0"
  then show "GetLeavesByRange t start count = Inl (StatusErr InvalidArgument ''invalid count %d, want > 0'')"
    by (simp add: GetLeavesByRange_def getLeavesByRangeInternal_def)
next
  assume "start <s 0"
  then show "\<exists>m. GetLeavesByRange t start count = Inl (StatusErr InvalidArgument m)"
    by (simp add: GetLeavesByRange_def getLeavesByRangeInternal_def)
next
  assume a: "0 <s count \<and> 0 \<le>s start \<and> treeType t = LOG \<and> (ts \<le> start \<or> ts \<le>s start)"
  then have "ts \<le>s start"
    using unsigned_le_imp_signed_le by blast
  moreover have "\<not> count \<le>s 0" "\<not> start <s 0"
    using a by (auto simp: word_sle_eq word_sless_alt)
  ultimately show "\<exists>m. GetLeavesByRange t start count = Inl (StatusErr OutOfRange m)"
    using a by (simp add: GetLeavesByRange_def getLeavesByRangeInternal_def clipCount_def Let_def ts_def)
next
  assume a: "0 <s count \<and> 0 \<le>s start \<and> (treeType t = LOG \<longrightarrow> start <s ts)"
    and m: "\<not> makeSliceCapOK c"
  from scan [OF a] m
  show "GetLeavesByRange t start count = Inl MakeSliceCapPanic"
    by simp
next
  fix n
  assume a: "0 <s count \<and> 0 \<le>s start \<and> (treeType t = LOG \<longrightarrow> start <s ts)"
    and m: "makeSliceCapOK c"
    and d: "\<forall>k<n. lr_SequenceNumber (rows ! k) = start + of_nat k"
    and e: "n = length rows"
  from scan [OF a] m
  have g: "GetLeavesByRange t start count = scanRange ts start rows []"
    by simp
  from scanRange_all [OF i, of start ts "[]"] d e
  show "GetLeavesByRange t start count = Inr (map scannedLeaf rows)"
    unfolding g by simp
next
  fix n
  assume a: "0 <s count \<and> 0 \<le>s start \<and> (treeType t = LOG \<longrightarrow> start <s ts)"
    and m: "makeSliceCapOK c"
    and d: "\<forall>k<n. lr_SequenceNumber (rows ! k) = start + of_nat k"
    and e: "n < length rows \<and> lr_SequenceNumber (rows ! n) \<noteq> start + of_nat n"
  from scan [OF a] m
  have g: "GetLeavesByRange t start count = scanRange ts start rows []"
    by simp
  from e have split: "rows = take n rows @ rows ! n # drop (Suc n) rows"
    by (simp add: id_take_nth_drop [symmetric])
  have ln: "length (take n rows) = n" using e by simp
  have "scanRange ts start (take n rows @ rows ! n # drop (Suc n) rows) []
     = (if start + of_nat (length (take n rows)) <s ts
        then Inl (UnexpectedIndex (lr_SequenceNumber (rows ! n)) (start + of_nat (length (take n rows))))
        else Inr ([] @ map scannedLeaf (take n rows)))"
  proof (rule scanRange_break)
    show "\<forall>x\<in>set (take n rows @ rows ! n # drop (Suc n) rows). lr_IntegrateTimestampNanos x \<noteq> None"
      using i split by simp
    show "\<forall>k<length (take n rows). lr_SequenceNumber (take n rows ! k) = start + of_nat k"
      using d by simp
    show "lr_SequenceNumber (rows ! n) \<noteq> start + of_nat (length (take n rows))"
      using e ln by simp
  qed
  then show "GetLeavesByRange t start count
                    = (if start + of_nat n <s ts
                       then Inl (UnexpectedIndex (lr_SequenceNumber (rows ! n)) (start + of_nat n))
                       else Inr (map scannedLeaf (take n rows)))"
    unfolding g ln using split by simp
next
  fix out
  assume r: "GetLeavesByRange t start count = Inr out"
  from getLeavesByRange_Inr [OF r]
  have a: "0 <s count \<and> 0 \<le>s start \<and> (treeType t = LOG \<longrightarrow> start <s ts)"
    by (simp add: ts_def)
  then have v: "0 <s count" "0 \<le>s start"
    by simp_all
  note cl = clip [OF a]
  from scan [OF a] r
  have g: "scanRange ts start rows [] = Inr out"
    by (simp split: if_splits)
  from scanRange_Inr [OF g] obtain n where n: "n \<le> length rows"
    and o: "out = map scannedLeaf (take n rows)"
    and d: "\<forall>k<n. lr_SequenceNumber (rows ! k) = start + of_nat k"
    by auto
  from o n have lo: "length out = n" by simp
  have b: "start \<le>s lr_SequenceNumber (rows ! k) \<and> lr_SequenceNumber (rows ! k) <s start + c"
    and st: "\<exists>s\<in>set (SequencedLeafData (tx t)). sq_TreeId s = treeID t
           \<and> sq_SequenceNumber s = lr_SequenceNumber (rows ! k)
           \<and> sq_LeafIdentityHash s = lr_LeafIdentityHash (rows ! k)"
    if "k < n" for k
  proof -
    from that n have "rows ! k \<in> set (selectLeavesByRange (tx t) start (start + c) (treeID t))"
      unfolding rows_def [symmetric] by simp
    from selectLeavesByRange_bounds [OF this]
    show "start \<le>s lr_SequenceNumber (rows ! k) \<and> lr_SequenceNumber (rows ! k) <s start + c"
      and "\<exists>s\<in>set (SequencedLeafData (tx t)). sq_TreeId s = treeID t
           \<and> sq_SequenceNumber s = lr_SequenceNumber (rows ! k)
           \<and> sq_LeafIdentityHash s = lr_LeafIdentityHash (rows ! k)"
      by simp_all
  qed
  have below: "\<forall>k<n. start + of_nat k <s start + c"
    using b d by simp
  note ds = dense_sint [OF below]
  from v have s0: "0 \<le> sint start" and c0: "0 < sint count"
    by (simp_all add: word_sle_eq word_sless_alt)
  note cc = clipCount_Inr [OF v cl]
  have hi: "sint (start + c) \<le> sint start + sint c"
    using s0 cc(2) by (intro sint_add_le) simp_all
  have len: "int n \<le> sint c"
  proof (cases n)
    case 0
    with cc(2) show ?thesis by simp
  next
    case (Suc j)
    then have "j < n" by simp
    from ds [OF this] below [rule_format, OF this]
    have "sint start + int j < sint (start + c)" by (simp add: word_sless_alt)
    with hi Suc show ?thesis by simp
  qed
  show "int (length out) \<le> sint count"
    using len cc(3) lo by simp
  show "sint start + int (length out) \<le> sint ts" if "treeType t = LOG"
  proof (cases n)
    case 0
    with cc(4) [OF that] lo show ?thesis by (simp add: word_sless_alt ts_def)
  next
    case (Suc j)
    then have "j < n" by simp
    from ds [OF this] below [rule_format, OF this]
    have "sint start + int j < sint (start + c)" by (simp add: word_sless_alt)
    with cc(4) [OF that] Suc lo show ?thesis by (simp add: ts_def)
  qed
  fix k assume k: "k < length out"
  with lo have kn: "k < n" by simp
  with o n have ok: "out ! k = scannedLeaf (rows ! k)" by simp
  then have li: "LeafIndex (out ! k) = lr_SequenceNumber (rows ! k)"
    and lh: "LeafIdentityHash (out ! k) = lr_LeafIdentityHash (rows ! k)" by simp_all
  show "LeafIndex (out ! k) = start + of_nat k"
    using li d kn by simp
  show "sint (LeafIndex (out ! k)) = sint start + int k"
    using li d kn ds [OF kn] by simp
  show "k < length rows" using kn n by simp
  show "out ! k = scannedLeaf (rows ! k)" by (rule ok)
  show "\<exists>s\<in>set (SequencedLeafData (tx t)). sq_TreeId s = treeID t
                \<and> sq_SequenceNumber s = LeafIndex (out ! k)
                \<and> sq_LeafIdentityHash s = LeafIdentityHash (out ! k)"
    using st [OF kn] unfolding li lh .
  qed
qed

theorem GetLeavesByRange_returns_dense_prefix_witness:
  "GetLeavesByRange (rangeTx LOG 4) 0 0 = Inl (StatusErr InvalidArgument ''invalid count %d, want > 0'')
   \<and> (\<exists>m. GetLeavesByRange (rangeTx LOG 4) (- 1) 1 = Inl (StatusErr InvalidArgument m))
   \<and> (\<exists>m. GetLeavesByRange (rangeTx LOG 4) 4 1 = Inl (StatusErr OutOfRange m))
   \<and> GetLeavesByRange (rangeTx PREORDERED_LOG 4) 0 4611686018427387904 = Inl MakeSliceCapPanic
   \<and> GetLeavesByRange (rangeTx LOG 4) 0 3 = Inr [rangeLeaf 1 0 5, rangeLeaf 2 1 6]
   \<and> GetLeavesByRange (rangeTx LOG 4) 0 9 = Inl (UnexpectedIndex 3 2)
   \<and> GetLeavesByRange (rangeTx PREORDERED_LOG 2) 0 9 = Inr [rangeLeaf 1 0 5, rangeLeaf 2 1 6]
   \<and> sint (0 :: int64) + int (length [rangeLeaf 1 0 5, rangeLeaf 2 1 6])
       \<le> sint (TreeSize (root (rangeTx LOG 4)))
   \<and> LeafIndex ([rangeLeaf 1 0 5, rangeLeaf 2 1 6] ! 1) = 0 + of_nat 1"
proof -
  let ?r0 = "\<lparr>lr_MerkleLeafHash = [1], lr_LeafIdentityHash = [1], lr_LeafValue = [10],
               lr_SequenceNumber = 0, lr_ExtraData = [], lr_QueueTimestampNanos = 5,
               lr_IntegrateTimestampNanos = Some 9\<rparr>"
  let ?r1 = "\<lparr>lr_MerkleLeafHash = [2], lr_LeafIdentityHash = [2], lr_LeafValue = [20],
               lr_SequenceNumber = 1, lr_ExtraData = [], lr_QueueTimestampNanos = 6,
               lr_IntegrateTimestampNanos = Some 9\<rparr>"
  let ?r3 = "\<lparr>lr_MerkleLeafHash = [3], lr_LeafIdentityHash = [3], lr_LeafValue = [30],
               lr_SequenceNumber = 3, lr_ExtraData = [], lr_QueueTimestampNanos = 7,
               lr_IntegrateTimestampNanos = Some 9\<rparr>"
  have leaves: "map scannedLeaf [?r0, ?r1] = [rangeLeaf 1 0 5, rangeLeaf 2 1 6]"
    by (simp add: rangeLeaf_def timeUnix0_def)
  have 1: "GetLeavesByRange (rangeTx LOG 4) 0 0 = Inl (StatusErr InvalidArgument ''invalid count %d, want > 0'')"
    using GetLeavesByRange_returns_dense_prefix [where t = "rangeTx LOG 4" and start = 0 and count = 0]
    by simp
  have 2: "\<exists>m. GetLeavesByRange (rangeTx LOG 4) (- 1) 1 = Inl (StatusErr InvalidArgument m)"
    using GetLeavesByRange_returns_dense_prefix [where t = "rangeTx LOG 4" and start = "- 1" and count = 1]
    by (simp add: word_sless_alt)
  have 3: "\<exists>m. GetLeavesByRange (rangeTx LOG 4) 4 1 = Inl (StatusErr OutOfRange m)"
    using GetLeavesByRange_returns_dense_prefix [where t = "rangeTx LOG 4" and start = 4 and count = 1]
    by (simp add: word_sless_alt word_sle_eq rangeTx_def)
  have 4: "GetLeavesByRange (rangeTx PREORDERED_LOG 4) 0 4611686018427387904 = Inl MakeSliceCapPanic"
  proof -
    have h: "0 <s (4611686018427387904 :: int64) \<and> 0 \<le>s (0 :: int64)
        \<and> (treeType (rangeTx PREORDERED_LOG 4) = LOG \<longrightarrow> 0 <s TreeSize (root (rangeTx PREORDERED_LOG 4)))"
      by (simp add: word_sless_alt word_sle_eq rangeTx_def)
    have m: "\<not> makeSliceCapOK
        (if treeType (rangeTx PREORDERED_LOG 4) = LOG
            \<and> TreeSize (root (rangeTx PREORDERED_LOG 4)) - 0 <s 4611686018427387904
         then TreeSize (root (rangeTx PREORDERED_LOG 4)) - 0 else 4611686018427387904)"
      by (simp add: rangeTx_def makeSliceCapOK_def maxAlloc_def)
    show ?thesis
      by (rule GetLeavesByRange_returns_dense_prefix [where t = "rangeTx PREORDERED_LOG 4" and start = 0
            and count = 4611686018427387904,
            THEN conjunct2, THEN conjunct2, THEN conjunct2, THEN conjunct1, rule_format, OF h,
            THEN conjunct1, rule_format, OF m])
  qed
  have 5: "GetLeavesByRange (rangeTx LOG 4) 0 3 = Inr [rangeLeaf 1 0 5, rangeLeaf 2 1 6]"
  proof -
    let ?t = "rangeTx LOG 4"
    let ?c = "if treeType ?t = LOG \<and> TreeSize (root ?t) - 0 <s 3 then TreeSize (root ?t) - 0 else (3 :: int64)"
    let ?rows = "selectLeavesByRange (tx ?t) 0 (0 + ?c) (treeID ?t)"
    have h: "0 <s (3 :: int64) \<and> 0 \<le>s (0 :: int64) \<and> (treeType ?t = LOG \<longrightarrow> 0 <s TreeSize (root ?t))"
      by (simp add: word_sless_alt word_sle_eq rangeTx_def)
    have m: "makeSliceCapOK ?c"
      by (simp add: rangeTx_def makeSliceCapOK_def maxAlloc_def word_sless_alt)
    have rows: "?rows = [?r0, ?r1]"
      by code_simp
    note T = GetLeavesByRange_returns_dense_prefix [where t = ?t and start = 0 and count = 3,
            THEN conjunct2, THEN conjunct2, THEN conjunct2, THEN conjunct1, rule_format, OF h,
            THEN conjunct2, rule_format, OF m, of 2, THEN conjunct1, rule_format]
    have "GetLeavesByRange ?t 0 3 = Inr (map scannedLeaf ?rows)"
      apply (rule T)
      unfolding rows
      by (auto simp: less_Suc_eq numeral_2_eq_2)
    then show ?thesis unfolding rows leaves .
  qed
  have 6: "GetLeavesByRange (rangeTx LOG 4) 0 9 = Inl (UnexpectedIndex 3 2)"
  proof -
    let ?t = "rangeTx LOG 4"
    let ?c = "if treeType ?t = LOG \<and> TreeSize (root ?t) - 0 <s 9 then TreeSize (root ?t) - 0 else (9 :: int64)"
    let ?rows = "selectLeavesByRange (tx ?t) 0 (0 + ?c) (treeID ?t)"
    have h: "0 <s (9 :: int64) \<and> 0 \<le>s (0 :: int64) \<and> (treeType ?t = LOG \<longrightarrow> 0 <s TreeSize (root ?t))"
      by (simp add: word_sless_alt word_sle_eq rangeTx_def)
    have m: "makeSliceCapOK ?c"
      by (simp add: rangeTx_def makeSliceCapOK_def maxAlloc_def word_sless_alt)
    have rows: "?rows = [?r0, ?r1, ?r3]"
      by code_simp
    note T = GetLeavesByRange_returns_dense_prefix [where t = ?t and start = 0 and count = 9,
            THEN conjunct2, THEN conjunct2, THEN conjunct2, THEN conjunct1, rule_format, OF h,
            THEN conjunct2, rule_format, OF m, of 2, THEN conjunct2, rule_format]
    have "GetLeavesByRange ?t 0 9
        = (if 0 + of_nat 2 <s TreeSize (root ?t)
           then Inl (UnexpectedIndex (lr_SequenceNumber (?rows ! 2)) (0 + of_nat 2))
           else Inr (map scannedLeaf (take 2 ?rows)))"
      apply (rule T)
      unfolding rows
      by (auto simp: less_Suc_eq numeral_2_eq_2)
    then show ?thesis unfolding rows by (simp add: rangeTx_def word_sless_alt)
  qed
  have 7: "GetLeavesByRange (rangeTx PREORDERED_LOG 2) 0 9 = Inr [rangeLeaf 1 0 5, rangeLeaf 2 1 6]"
  proof -
    let ?t = "rangeTx PREORDERED_LOG 2"
    let ?c = "if treeType ?t = LOG \<and> TreeSize (root ?t) - 0 <s 9 then TreeSize (root ?t) - 0 else (9 :: int64)"
    let ?rows = "selectLeavesByRange (tx ?t) 0 (0 + ?c) (treeID ?t)"
    have h: "0 <s (9 :: int64) \<and> 0 \<le>s (0 :: int64) \<and> (treeType ?t = LOG \<longrightarrow> 0 <s TreeSize (root ?t))"
      by (simp add: word_sless_alt word_sle_eq rangeTx_def)
    have m: "makeSliceCapOK ?c"
      by (simp add: rangeTx_def makeSliceCapOK_def maxAlloc_def word_sless_alt)
    have rows: "?rows = [?r0, ?r1, ?r3]"
      by code_simp
    note T = GetLeavesByRange_returns_dense_prefix [where t = ?t and start = 0 and count = 9,
            THEN conjunct2, THEN conjunct2, THEN conjunct2, THEN conjunct1, rule_format, OF h,
            THEN conjunct2, rule_format, OF m, of 2, THEN conjunct2, rule_format]
    have "GetLeavesByRange ?t 0 9
        = (if 0 + of_nat 2 <s TreeSize (root ?t)
           then Inl (UnexpectedIndex (lr_SequenceNumber (?rows ! 2)) (0 + of_nat 2))
           else Inr (map scannedLeaf (take 2 ?rows)))"
      apply (rule T)
      unfolding rows
      by (auto simp: less_Suc_eq numeral_2_eq_2)
    then show ?thesis unfolding rows by (simp add: rangeTx_def word_sless_alt rangeLeaf_def timeUnix0_def)
  qed
  note O = GetLeavesByRange_returns_dense_prefix [where t = "rangeTx LOG 4" and start = 0 and count = 3,
            THEN conjunct2, THEN conjunct2, THEN conjunct2, THEN conjunct2, rule_format, OF 5]
  have 8: "sint (0 :: int64) + int (length [rangeLeaf 1 0 5, rangeLeaf 2 1 6])
       \<le> sint (TreeSize (root (rangeTx LOG 4)))"
    by (rule O [THEN conjunct2, THEN conjunct1, rule_format]) (simp add: rangeTx_def)
  have 9: "LeafIndex ([rangeLeaf 1 0 5, rangeLeaf 2 1 6] ! 1) = 0 + of_nat 1"
    by (rule O [THEN conjunct2, THEN conjunct2, rule_format, of 1, THEN conjunct1]) simp
  from 1 2 3 4 5 6 7 8 9 show ?thesis by blast
qed

section \<open>Properties of dequeueing\<close>

text \<open>
  Claim C9. For a \<open>PREORDERED_LOG\<close> tree \<open>DequeueLeaves(limit, cutoff)\<close> returns
  what \<open>GetLeavesByRange(tree_size, limit)\<close> returns, the range read from the tree
  size of the transaction's root upwards, leaves the transaction as it was, and gives
  the same result for any two cutoff times.
\<close>

theorem DequeueLeaves_preordered_is_range_scan:
  "treeType t = PREORDERED_LOG \<Longrightarrow>
     DequeueLeaves t limit cutoffTime = (GetLeavesByRange t (TreeSize (root t)) limit, t)
     \<and> DequeueLeaves t limit cutoffTime = DequeueLeaves t limit cutoffTime'"
  by (simp add: DequeueLeaves_def GetLeavesByRange_def)


theorem DequeueLeaves_preordered_is_range_scan_witness:
  "treeType (rangeTx PREORDERED_LOG 3) = PREORDERED_LOG
   \<and> DequeueLeaves (rangeTx PREORDERED_LOG 3) 10 0 = (Inr [rangeLeaf 3 3 7], rangeTx PREORDERED_LOG 3)
   \<and> DequeueLeaves (rangeTx PREORDERED_LOG 3) 10 0 = DequeueLeaves (rangeTx PREORDERED_LOG 3) 10 1000"
proof -
  have ty: "treeType (rangeTx PREORDERED_LOG 3) = PREORDERED_LOG"
    by (simp add: rangeTx_def)
  have scan: "GetLeavesByRange (rangeTx PREORDERED_LOG 3) (TreeSize (root (rangeTx PREORDERED_LOG 3))) 10
      = Inr [rangeLeaf 3 3 7]"
    by code_simp
  have "DequeueLeaves (rangeTx PREORDERED_LOG 3) 10 0
          = (GetLeavesByRange (rangeTx PREORDERED_LOG 3) (TreeSize (root (rangeTx PREORDERED_LOG 3))) 10,
             rangeTx PREORDERED_LOG 3)"
    and "DequeueLeaves (rangeTx PREORDERED_LOG 3) 10 0 = DequeueLeaves (rangeTx PREORDERED_LOG 3) 10 1000"
    using DequeueLeaves_preordered_is_range_scan [OF ty, of 10 0 1000] by blast+
  with scan ty show ?thesis by simp
qed

section \<open>Properties of the quota manager\<close>

text \<open>
  Claim C8. \<open>GetTokens(n, specs)\<close> returns the too-many-unsequenced-rows error exactly
  when some spec is Global and Write and the backlog plus \<open>n\<close> exceeds
  \<open>MaxUnsequencedRows\<close>; in particular a call none of whose specs is Global-Write
  succeeds whatever the backlog, and \<open>PutTokens\<close> and \<open>ResetQuota\<close> return success
  and leave the state as it was.
\<close>

theorem GetTokens_global_write_ceiling:
  "(GetTokens m db n specs = Some ErrTooManyUnsequencedRows
      \<longleftrightarrow> (\<exists>s\<in>set specs. Group s = Global \<and> Kind s = Write)
          \<and> countUnsequenced m db + n > MaxUnsequencedRows m)
   \<and> ((\<forall>s\<in>set specs. \<not> (Group s = Global \<and> Kind s = Write)) \<longrightarrow> GetTokens m db n specs = None)
   \<and> PutTokens m db n specs = (None, db)
   \<and> ResetQuota m db specs = (None, db)"
proof -
  have iff: "GetTokens m db n specs = Some ErrTooManyUnsequencedRows
      \<longleftrightarrow> (\<exists>s\<in>set specs. Group s = Global \<and> Kind s = Write)
          \<and> countUnsequenced m db + n > MaxUnsequencedRows m"
    by (induction specs) auto
  have none: "GetTokens m db n specs = None"
    if "\<forall>s\<in>set specs. \<not> (Group s = Global \<and> Kind s = Write)"
    using that by (induction specs) auto
  show ?thesis
    using iff none by (simp add: PutTokens_def ResetQuota_def)
qed

theorem GetTokens_global_write_ceiling_witness:
  "GetTokens \<lparr>MaxUnsequencedRows = 20, UseSelectCount = True\<rparr> (quotaDb 10) 1 globalWrite = None
   \<and> GetTokens \<lparr>MaxUnsequencedRows = 20, UseSelectCount = True\<rparr> (quotaDb 20) 1 globalWrite
       = Some ErrTooManyUnsequencedRows
   \<and> GetTokens \<lparr>MaxUnsequencedRows = 20, UseSelectCount = True\<rparr> (quotaDb 15) 10 globalWrite
       = Some ErrTooManyUnsequencedRows
   \<and> GetTokens \<lparr>MaxUnsequencedRows = 0, UseSelectCount = True\<rparr> (quotaDb 0) 10 unlimitedQuotas = None"
proof -
  let ?m = "\<lparr>MaxUnsequencedRows = 20, UseSelectCount = True\<rparr>"
  have gw: "\<exists>s\<in>set globalWrite. Group s = Global \<and> Kind s = Write"
    by (simp add: globalWrite_def)
  have un: "\<forall>s\<in>set unlimitedQuotas. \<not> (Group s = Global \<and> Kind s = Write)"
    by (simp add: unlimitedQuotas_def)
  have "GetTokens ?m (quotaDb 10) 1 globalWrite \<noteq> Some ErrTooManyUnsequencedRows"
    using GetTokens_global_write_ceiling [of ?m "quotaDb 10" 1 globalWrite]
    by (simp add: countUnsequenced_def quotaDb_def)
  then have a: "GetTokens ?m (quotaDb 10) 1 globalWrite = None"
    by (cases "GetTokens ?m (quotaDb 10) 1 globalWrite") (auto intro: quotaError.exhaust)
  have b: "GetTokens ?m (quotaDb 20) 1 globalWrite = Some ErrTooManyUnsequencedRows"
    using GetTokens_global_write_ceiling [of ?m "quotaDb 20" 1 globalWrite] gw
    by (simp add: countUnsequenced_def quotaDb_def)
  have c: "GetTokens ?m (quotaDb 15) 10 globalWrite = Some ErrTooManyUnsequencedRows"
    using GetTokens_global_write_ceiling [of ?m "quotaDb 15" 10 globalWrite] gw
    by (simp add: countUnsequenced_def quotaDb_def)
  have d: "GetTokens \<lparr>MaxUnsequencedRows = 0, UseSelectCount = True\<rparr> (quotaDb 0) 10 unlimitedQuotas = None"
    using GetTokens_global_write_ceiling
      [of "\<lparr>MaxUnsequencedRows = 0, UseSelectCount = True\<rparr>" "quotaDb 0" 10 unlimitedQuotas] un
    by blast
  from a b c d show ?thesis by simp
qed

section \<open>Properties of tree administration\<close>

text \<open>
  Claim C7. When no tree has the given id, \<open>SoftDeleteTree\<close>, \<open>UndeleteTree\<close> and
  \<open>HardDeleteTree\<close> fail with a not-found error; \<open>SoftDeleteTree\<close> of a tree that is
  soft-deleted, and \<open>UndeleteTree\<close> and \<open>HardDeleteTree\<close> of a tree that is not, fail
  with a failed-precondition error. In each case the tables are left as they were.
\<close>

theorem delete_state_errors:
  "(find (\<lambda>r. tr_TreeId r = treeId) (Trees db) = None \<longrightarrow>
      SoftDeleteTree readTree now db treeId = (Inl (StatusErr NotFound ''tree %v not found''), db)
      \<and> UndeleteTree readTree db treeId = (Inl (StatusErr NotFound ''tree %v not found''), db)
      \<and> HardDeleteTree cascade db treeId = (Some (StatusErr NotFound ''tree %v not found''), db))
   \<and> (\<forall>r. find (\<lambda>r. tr_TreeId r = treeId) (Trees db) = Some r \<and> tr_Deleted r = Some True \<longrightarrow>
        SoftDeleteTree readTree now db treeId
          = (Inl (StatusErr FailedPrecondition ''tree %v already soft deleted''), db))
   \<and> (\<forall>r. find (\<lambda>r. tr_TreeId r = treeId) (Trees db) = Some r \<and> tr_Deleted r \<noteq> Some True \<longrightarrow>
        UndeleteTree readTree db treeId
          = (Inl (StatusErr FailedPrecondition ''tree %v is not soft deleted''), db)
        \<and> HardDeleteTree cascade db treeId
          = (Some (StatusErr FailedPrecondition ''tree %v is not soft deleted''), db))"
  by (simp add: SoftDeleteTree_def UndeleteTree_def HardDeleteTree_def updateDeleted_def
      validateDeleted_def)

theorem delete_state_errors_witness:
  "SoftDeleteTree toyReadTree 5000000 adminDb 9 = (Inl (StatusErr NotFound ''tree %v not found''), adminDb)
   \<and> UndeleteTree toyReadTree adminDb 9 = (Inl (StatusErr NotFound ''tree %v not found''), adminDb)
   \<and> HardDeleteTree False adminDb 9 = (Some (StatusErr NotFound ''tree %v not found''), adminDb)
   \<and> SoftDeleteTree toyReadTree 5000000 adminDb 7
       = (Inl (StatusErr FailedPrecondition ''tree %v already soft deleted''), adminDb)
   \<and> UndeleteTree toyReadTree adminDb 8
       = (Inl (StatusErr FailedPrecondition ''tree %v is not soft deleted''), adminDb)
   \<and> HardDeleteTree False adminDb 8
       = (Some (StatusErr FailedPrecondition ''tree %v is not soft deleted''), adminDb)"
proof -
  have f9: "find (\<lambda>r. tr_TreeId r = 9) (Trees adminDb) = None"
    by (simp add: adminDb_def adminRow_def)
  have f7: "find (\<lambda>r. tr_TreeId r = 7) (Trees adminDb) = Some (adminRow 7 (Some True))
      \<and> tr_Deleted (adminRow 7 (Some True)) = Some True"
    by (simp add: adminDb_def adminRow_def)
  have f8: "find (\<lambda>r. tr_TreeId r = 8) (Trees adminDb) = Some (adminRow 8 None)
      \<and> tr_Deleted (adminRow 8 None) \<noteq> Some True"
    by (simp add: adminDb_def adminRow_def)
  note t9 = delete_state_errors [of 9 adminDb toyReadTree 5000000 False, THEN conjunct1, rule_format, OF f9]
  note t7 = delete_state_errors [of 7 adminDb toyReadTree 5000000 False, THEN conjunct2, THEN conjunct1,
      rule_format, OF f7]
  note t8 = delete_state_errors [of 8 adminDb toyReadTree 5000000 False, THEN conjunct2, THEN conjunct2,
      rule_format, OF f8]
  from t9 t7 t8 show ?thesis by blast
qed

text \<open>
  Claim C6 as stated fails: \<open>HardDeleteTree\<close> sends two statements, one against
  \<open>TreeControl\<close> and one against \<open>Trees\<close>, and none against \<open>TreeHead\<close>. When the
  schema does not cascade, the tree heads of the soft-deleted tree 7 are still there
  after the call.
\<close>

theorem HardDeleteTree_leaves_tree_heads_counterexample:
  "map tr_TreeId (Trees adminDb) = [7, 8]
   \<and> map tr_Deleted (Trees adminDb) = [Some True, None]
   \<and> map th_TreeId (TreeHead adminDb) = [7, 8]
   \<and> fst (HardDeleteTree False adminDb 7) = None
   \<and> map th_TreeId (TreeHead (snd (HardDeleteTree False adminDb 7))) = [7, 8]"
  by (simp add: HardDeleteTree_def validateDeleted_def execDeleteTree_def Let_def adminDb_def adminRow_def)

text \<open>
  Claim C6, amended. For every soft-deleted tree \<open>HardDeleteTree\<close> succeeds and removes
  the control rows of the tree and the row of the tree itself, whether or not the
  schema cascades, and leaves the rows of the other trees in both tables; the tree heads
  of the tree go only when the foreign key of the schema cascades, and stay as they
  were otherwise.
\<close>

theorem HardDeleteTree_deletes_control_and_tree:
  "find (\<lambda>r. tr_TreeId r = treeId) (Trees db) = Some r \<Longrightarrow> tr_Deleted r = Some True \<Longrightarrow>
   fst (HardDeleteTree cascade db treeId) = None
   \<and> Trees (snd (HardDeleteTree cascade db treeId)) = filter (\<lambda>x. tr_TreeId x \<noteq> treeId) (Trees db)
   \<and> TreeControl (snd (HardDeleteTree cascade db treeId))
       = filter (\<lambda>x. tc_TreeId x \<noteq> treeId) (TreeControl db)
   \<and> (\<forall>x\<in>set (Trees (snd (HardDeleteTree cascade db treeId))). tr_TreeId x \<noteq> treeId)
   \<and> (\<forall>x\<in>set (TreeControl (snd (HardDeleteTree cascade db treeId))). tc_TreeId x \<noteq> treeId)
   \<and> TreeHead (snd (HardDeleteTree cascade db treeId))
       = (if cascade then filter (\<lambda>x. th_TreeId x \<noteq> treeId) (TreeHead db) else TreeHead db)"
  by (simp add: HardDeleteTree_def validateDeleted_def execDeleteTree_def Let_def)

theorem HardDeleteTree_deletes_control_and_tree_witness:
  "find (\<lambda>r. tr_TreeId r = 7) (Trees adminDb) = Some (adminRow 7 (Some True))
   \<and> tr_Deleted (adminRow 7 (Some True)) = Some True
   \<and> fst (HardDeleteTree False adminDb 7) = None
   \<and> map tr_TreeId (Trees (snd (HardDeleteTree False adminDb 7))) = [8]
   \<and> map tc_TreeId (TreeControl (snd (HardDeleteTree False adminDb 7))) = [8]
   \<and> map th_TreeId (TreeHead (snd (HardDeleteTree False adminDb 7))) = [7, 8]
   \<and> map th_TreeId (TreeHead (snd (HardDeleteTree True adminDb 7))) = [8]"
proof -
  have f: "find (\<lambda>r. tr_TreeId r = 7) (Trees adminDb) = Some (adminRow 7 (Some True))"
    and d: "tr_Deleted (adminRow 7 (Some True)) = Some True"
    by (simp_all add: adminDb_def adminRow_def)
  from HardDeleteTree_deletes_control_and_tree [OF f d, of False]
       HardDeleteTree_deletes_control_and_tree [OF f d, of True] f d
  show ?thesis
    by (simp add: adminDb_def adminRow_def)
qed

text \<open>The update statement sets seven columns of \<open>Trees\<close> and touches nothing else.\<close>

lemma execUpdateTree_frame:
  "map (\<lambda>r. r\<lparr>tr_TreeState := [], tr_TreeType := [], tr_DisplayName := [], tr_Description := [],
                tr_UpdateTimeMillis := 0, tr_MaxRootDurationMillis := 0, tr_PrivateKey := []\<rparr>)
       (Trees (execUpdateTree db a b c d e f g i))
   = map (\<lambda>r. r\<lparr>tr_TreeState := [], tr_TreeType := [], tr_DisplayName := [], tr_Description := [],
                tr_UpdateTimeMillis := 0, tr_MaxRootDurationMillis := 0, tr_PrivateKey := []\<rparr>)
       (Trees db)"
  by (simp add: execUpdateTree_def)

lemma execUpdateTree_PublicKey:
  "map tr_PublicKey (Trees (execUpdateTree db a b c d e f g i)) = map tr_PublicKey (Trees db)"
  by (simp add: execUpdateTree_def comp_def)

lemma execUpdateTree_others:
  "TreeControl (execUpdateTree db a b c d e f g i) = TreeControl db"
  "TreeHead (execUpdateTree db a b c d e f g i) = TreeHead db"
  "LeafData (execUpdateTree db a b c d e f g i) = LeafData db"
  "SequencedLeafData (execUpdateTree db a b c d e f g i) = SequencedLeafData db"
  "Unsequenced (execUpdateTree db a b c d e f g i) = Unsequenced db"
  by (simp_all add: execUpdateTree_def)

lemma UpdateTree_cases:
  "P db \<Longrightarrow> (\<And>a b c d e f g i. P (execUpdateTree db a b c d e f g i)) \<Longrightarrow>
   P (snd (UpdateTree readTree V now db treeId updateFunc))"
  unfolding UpdateTree_def Let_def
  by (auto split: sum.splits option.splits)

text \<open>
  Claim C10. Whatever the tree id, the mutator and the validator, after \<open>UpdateTree\<close>
  the \<open>PublicKey\<close> column, which holds the storage settings written by
  \<open>CreateTree\<close>, is in every row what it was before. More: the rows of \<open>Trees\<close>
  before and after agree once the tree state, the tree type, the display name, the
  description, the update time, the max-root-duration and the private key are blanked
  out, so these seven columns are the only ones that can differ, and the tree-control
  and tree-head tables are as they were.
\<close>

theorem UpdateTree_keeps_storage_settings:
  "map tr_PublicKey (Trees (snd (UpdateTree readTree ValidateTreeForUpdate now db treeId updateFunc)))
     = map tr_PublicKey (Trees db)
   \<and> map (\<lambda>r. r\<lparr>tr_TreeState := [], tr_TreeType := [], tr_DisplayName := [], tr_Description := [],
                  tr_UpdateTimeMillis := 0, tr_MaxRootDurationMillis := 0, tr_PrivateKey := []\<rparr>)
         (Trees (snd (UpdateTree readTree ValidateTreeForUpdate now db treeId updateFunc)))
     = map (\<lambda>r. r\<lparr>tr_TreeState := [], tr_TreeType := [], tr_DisplayName := [], tr_Description := [],
                  tr_UpdateTimeMillis := 0, tr_MaxRootDurationMillis := 0, tr_PrivateKey := []\<rparr>)
         (Trees db)
   \<and> TreeControl (snd (UpdateTree readTree ValidateTreeForUpdate now db treeId updateFunc)) = TreeControl db
   \<and> TreeHead (snd (UpdateTree readTree ValidateTreeForUpdate now db treeId updateFunc)) = TreeHead db"
  by (rule UpdateTree_cases)
     (simp_all add: execUpdateTree_frame execUpdateTree_PublicKey execUpdateTree_others)

theorem UpdateTree_keeps_storage_settings_witness:
  "fst (UpdateTree toyReadTree toyValidate 5000000 adminDb 8
         (\<lambda>t. t\<lparr>DisplayName := ''new'',
                 StorageSettings := Some (Any ''type.googleapis.com/mysqlpb.StorageOptions'' [8, 1])\<rparr>))
     = Inr \<lparr>TreeId = 8, TreeState = ACTIVE, TreeType = LOG, DisplayName = ''new'', Description = ''d'',
            CreateTime = Some 1000000, UpdateTime = Some 5000000, MaxRootDuration = Some 0,
            StorageSettings = Some (Any ''type.googleapis.com/mysqlpb.StorageOptions'' [8, 1]),
            Deleted = False, DeleteTime = None\<rparr>
   \<and> map tr_DisplayName (Trees (snd (UpdateTree toyReadTree toyValidate 5000000 adminDb 8
         (\<lambda>t. t\<lparr>DisplayName := ''new'',
                 StorageSettings := Some (Any ''type.googleapis.com/mysqlpb.StorageOptions'' [8, 1])\<rparr>))))
     = [''old'', ''new'']
   \<and> map tr_PublicKey (Trees (snd (UpdateTree toyReadTree toyValidate 5000000 adminDb 8
         (\<lambda>t. t\<lparr>DisplayName := ''new'',
                 StorageSettings := Some (Any ''type.googleapis.com/mysqlpb.StorageOptions'' [8, 1])\<rparr>))))
     = [[1, 2, 3], [1, 2, 3]]"
proof -
  let ?f = "\<lambda>t. t\<lparr>DisplayName := ''new'',
                 StorageSettings := Some (Any ''type.googleapis.com/mysqlpb.StorageOptions'' [8, 1])\<rparr>"
  have pk: "map tr_PublicKey (Trees adminDb) = [[1, 2, 3], [1, 2, 3]]"
    by (simp add: adminDb_def adminRow_def)
  have run: "fst (UpdateTree toyReadTree toyValidate 5000000 adminDb 8 ?f)
     = Inr \<lparr>TreeId = 8, TreeState = ACTIVE, TreeType = LOG, DisplayName = ''new'', Description = ''d'',
            CreateTime = Some 1000000, UpdateTime = Some 5000000, MaxRootDuration = Some 0,
            StorageSettings = Some (Any ''type.googleapis.com/mysqlpb.StorageOptions'' [8, 1]),
            Deleted = False, DeleteTime = None\<rparr>"
    by code_simp
  have dn: "map tr_DisplayName (Trees (snd (UpdateTree toyReadTree toyValidate 5000000 adminDb 8 ?f)))
     = [''old'', ''new'']"
    by code_simp
  from UpdateTree_keeps_storage_settings [of toyReadTree toyValidate 5000000 adminDb 8 ?f] pk
  have "map tr_PublicKey (Trees (snd (UpdateTree toyReadTree toyValidate 5000000 adminDb 8 ?f)))
     = [[1, 2, 3], [1, 2, 3]]"
    by simp
  with run dn show ?thesis by simp
qed

section \<open>Properties of storing a signed log root\<close>

text \<open>
  Claim C1 as stated fails: \<open>StoreSignedLogRoot\<close> never reads the current root. In a
  transaction whose current root has size 5 and timestamp 100, a root of size 3 and
  timestamp 50 is stored at the write revision; the root equal to the current one is
  stored as a second row and not passed over; and a root sent twice at one revision
  fails the second time with the duplicate-entry error of the driver, although the
  two are identical.
\<close>

theorem StoreSignedLogRoot_no_monotonicity_check_counterexample:
  "toyUnmarshal [3, 50] = Inr \<lparr>TreeSize = 3, RootHash = [], TimestampNanos = 50, Metadata = []\<rparr>
   \<and> TreeSize (root storeTx) = 5 \<and> TimestampNanos (root storeTx) = 100
   \<and> writeRevision storeTx = 2
   \<and> fst (StoreSignedLogRoot toyUnmarshal storeTx \<lparr>LogRoot = [3, 50]\<rparr>) = None
   \<and> map th_TreeSize (TreeHead (tx (snd (StoreSignedLogRoot toyUnmarshal storeTx \<lparr>LogRoot = [3, 50]\<rparr>))))
       = [5, 3]
   \<and> fst (StoreSignedLogRoot toyUnmarshal storeTx \<lparr>LogRoot = [5, 100]\<rparr>) = None
   \<and> map th_TreeRevision (TreeHead (tx (snd (StoreSignedLogRoot toyUnmarshal storeTx \<lparr>LogRoot = [5, 100]\<rparr>))))
       = [1, 2]
   \<and> fst (StoreSignedLogRoot toyUnmarshal
             (snd (StoreSignedLogRoot toyUnmarshal storeTx \<lparr>LogRoot = [9, 200]\<rparr>)) \<lparr>LogRoot = [9, 200]\<rparr>)
       = Some (SqlErr DuplicateEntry)"
  by (simp add: StoreSignedLogRoot_def execInsertTreeHead_def checkResultOkAndRowCountIs_def
      mysqlToGRPC_def toyUnmarshal_def storeTx_def)

text \<open>
  Claim C1, amended. \<open>StoreSignedLogRoot\<close> succeeds exactly when the supplied root
  parses, carries no metadata and the tree has no tree head at the write revision of
  the transaction; it then appends one tree-head row with the timestamp, the size and
  the hash of the root at that revision. A root with metadata is refused and changes
  nothing; a root for a revision that is taken fails with the duplicate-entry error
  and changes nothing, whether or not it equals the stored one. The size and the
  timestamp of the root are not compared with those of the current root.
\<close>

theorem StoreSignedLogRoot_succeeds_iff:
  "(fst (StoreSignedLogRoot UnmarshalBinary t sroot) = None
      \<longleftrightarrow> (\<exists>logRoot. UnmarshalBinary (LogRoot sroot) = Inr logRoot \<and> Metadata logRoot = []
            \<and> \<not> (\<exists>h\<in>set (TreeHead (tx t)).
                    th_TreeId h = treeID t \<and> th_TreeRevision h = writeRevision t)))
   \<and> (\<forall>logRoot. UnmarshalBinary (LogRoot sroot) = Inr logRoot \<and> Metadata logRoot = []
          \<and> \<not> (\<exists>h\<in>set (TreeHead (tx t)). th_TreeId h = treeID t \<and> th_TreeRevision h = writeRevision t)
        \<longrightarrow> snd (StoreSignedLogRoot UnmarshalBinary t sroot)
              = t\<lparr>tx := (tx t)\<lparr>TreeHead := TreeHead (tx t) @
                     [\<lparr>th_TreeId = treeID t, th_TreeHeadTimestamp = TimestampNanos logRoot,
                       th_TreeSize = TreeSize logRoot, th_RootHash = RootHash logRoot,
                       th_TreeRevision = writeRevision t, th_RootSignature = []\<rparr>]\<rparr>\<rparr>)
   \<and> (\<forall>logRoot. UnmarshalBinary (LogRoot sroot) = Inr logRoot \<and> Metadata logRoot \<noteq> []
        \<longrightarrow> StoreSignedLogRoot UnmarshalBinary t sroot = (Some MetadataUnsupported, t))
   \<and> (\<forall>logRoot. UnmarshalBinary (LogRoot sroot) = Inr logRoot \<and> Metadata logRoot = []
          \<and> (\<exists>h\<in>set (TreeHead (tx t)). th_TreeId h = treeID t \<and> th_TreeRevision h = writeRevision t)
        \<longrightarrow> StoreSignedLogRoot UnmarshalBinary t sroot = (Some (SqlErr DuplicateEntry), t))"
  unfolding StoreSignedLogRoot_def execInsertTreeHead_def checkResultOkAndRowCountIs_def mysqlToGRPC_def
  by (cases "UnmarshalBinary (LogRoot sroot)") auto

theorem StoreSignedLogRoot_succeeds_iff_witness:
  "fst (StoreSignedLogRoot toyUnmarshal storeTx \<lparr>LogRoot = [9, 200]\<rparr>) = None
   \<and> map th_TreeRevision (TreeHead (tx (snd (StoreSignedLogRoot toyUnmarshal storeTx \<lparr>LogRoot = [9, 200]\<rparr>))))
       = [1, 2]
   \<and> StoreSignedLogRoot toyUnmarshal storeTx \<lparr>LogRoot = [9, 200, 1]\<rparr> = (Some MetadataUnsupported, storeTx)
   \<and> StoreSignedLogRoot toyUnmarshal (storeTx\<lparr>writeRevision := 1\<rparr>) \<lparr>LogRoot = [9, 200]\<rparr>
       = (Some (SqlErr DuplicateEntry), storeTx\<lparr>writeRevision := 1\<rparr>)"
proof -
  let ?lr = "\<lparr>TreeSize = 9, RootHash = [], TimestampNanos = 200, Metadata = []\<rparr>"
  let ?lm = "\<lparr>TreeSize = 9, RootHash = [], TimestampNanos = 200, Metadata = [1]\<rparr>"
  have ok: "toyUnmarshal (LogRoot \<lparr>LogRoot = [9, 200]\<rparr>) = Inr ?lr \<and> Metadata ?lr = []
      \<and> \<not> (\<exists>h\<in>set (TreeHead (tx storeTx)). th_TreeId h = treeID storeTx
               \<and> th_TreeRevision h = writeRevision storeTx)"
    by (simp add: toyUnmarshal_def storeTx_def)
  have md: "toyUnmarshal (LogRoot \<lparr>LogRoot = [9, 200, 1]\<rparr>) = Inr ?lm \<and> Metadata ?lm \<noteq> []"
    by (simp add: toyUnmarshal_def)
  have dup: "toyUnmarshal (LogRoot \<lparr>LogRoot = [9, 200]\<rparr>) = Inr ?lr \<and> Metadata ?lr = []
      \<and> (\<exists>h\<in>set (TreeHead (tx (storeTx\<lparr>writeRevision := 1\<rparr>))).
            th_TreeId h = treeID (storeTx\<lparr>writeRevision := 1\<rparr>)
            \<and> th_TreeRevision h = writeRevision (storeTx\<lparr>writeRevision := 1\<rparr>))"
    by (simp add: toyUnmarshal_def storeTx_def)
  note T = StoreSignedLogRoot_succeeds_iff [of toyUnmarshal storeTx "\<lparr>LogRoot = [9, 200]\<rparr>"]
  have a: "fst (StoreSignedLogRoot toyUnmarshal storeTx \<lparr>LogRoot = [9, 200]\<rparr>) = None"
    using T [THEN conjunct1] ok by blast
  have b: "snd (StoreSignedLogRoot toyUnmarshal storeTx \<lparr>LogRoot = [9, 200]\<rparr>)
      = storeTx\<lparr>tx := (tx storeTx)\<lparr>TreeHead := TreeHead (tx storeTx) @
                     [\<lparr>th_TreeId = treeID storeTx, th_TreeHeadTimestamp = TimestampNanos ?lr,
                       th_TreeSize = TreeSize ?lr, th_RootHash = RootHash ?lr,
                       th_TreeRevision = writeRevision storeTx, th_RootSignature = []\<rparr>]\<rparr>\<rparr>"
    by (rule T [THEN conjunct2, THEN conjunct1, rule_format, OF ok])
  have c: "StoreSignedLogRoot toyUnmarshal storeTx \<lparr>LogRoot = [9, 200, 1]\<rparr> = (Some MetadataUnsupported, storeTx)"
    by (rule StoreSignedLogRoot_succeeds_iff [of toyUnmarshal storeTx "\<lparr>LogRoot = [9, 200, 1]\<rparr>",
          THEN conjunct2, THEN conjunct2, THEN conjunct1, rule_format, OF md])
  have d: "StoreSignedLogRoot toyUnmarshal (storeTx\<lparr>writeRevision := 1\<rparr>) \<lparr>LogRoot = [9, 200]\<rparr>
       = (Some (SqlErr DuplicateEntry), storeTx\<lparr>writeRevision := 1\<rparr>)"
    by (rule StoreSignedLogRoot_succeeds_iff [of toyUnmarshal "storeTx\<lparr>writeRevision := 1\<rparr>" "\<lparr>LogRoot = [9, 200]\<rparr>",
          THEN conjunct2, THEN conjunct2, THEN conjunct2, rule_format, OF dup])
  have "map th_TreeRevision (TreeHead (tx (snd (StoreSignedLogRoot toyUnmarshal storeTx \<lparr>LogRoot = [9, 200]\<rparr>))))
       = [1, 2]"
    unfolding b by (simp add: storeTx_def)
  with a c d show ?thesis by simp
qed

section \<open>Properties of the sorted insertion\<close>

text \<open>\<open>bytes.Compare\<close> is antisymmetric, so that "not less the other way round" is
  "at most equal".\<close>

lemma bytesCompare_swap: "bytesCompare b a = - bytesCompare a b"
  by (induction a b rule: bytesCompare.induct) auto

lemma bytesCompare_range: "bytesCompare a b = - 1 \<or> bytesCompare a b = 0 \<or> bytesCompare a b = 1"
  by (induction a b rule: bytesCompare.induct) auto

lemma not_Less_iff:
  "\<not> byLeafIdentityHashWithPosition_Less b a
   \<longleftrightarrow> bytesCompare (LeafIdentityHash (leaf a)) (LeafIdentityHash (leaf b)) \<le> 0"
  using bytesCompare_swap [of "LeafIdentityHash (leaf b)" "LeafIdentityHash (leaf a)"]
    bytesCompare_range [of "LeafIdentityHash (leaf a)" "LeafIdentityHash (leaf b)"]
  by (auto simp: byLeafIdentityHashWithPosition_Less_def)

lemma length_withPositions [simp]: "length (withPositions leaves) = length leaves"
  by (simp add: withPositions_def)

lemma nth_withPositions:
  "i < length leaves \<Longrightarrow> withPositions leaves ! i = \<lparr>leaf = leaves ! i, idx = i\<rparr>"
  by (simp add: withPositions_def nth_enumerate_eq)

lemma map_idx_withPositions: "map idx (withPositions leaves) = [0..<length leaves]"
  by (rule nth_equalityI) (simp_all add: nth_withPositions)

lemma in_withPositions:
  "ol \<in> set (withPositions leaves) \<Longrightarrow> idx ol < length leaves \<and> leaf ol = leaves ! idx ol"
  by (auto simp: in_set_conv_nth nth_withPositions)

lemma distinct_withPositions: "distinct (withPositions leaves)"
  using distinct_upt [of 0 "length leaves"] map_idx_withPositions [of leaves]
  by (metis distinct_map)

lemma inj_on_idx_withPositions: "inj_on idx (set (withPositions leaves))"
  using distinct_upt [of 0 "length leaves"] map_idx_withPositions [of leaves]
  by (metis distinct_map)

lemma sorted_positions:
  assumes "sortContract sortSort (withPositions leaves)"
  shows "distinct (map idx (sortLeavesForInsert sortSort leaves))"
    and "set (map idx (sortLeavesForInsert sortSort leaves)) = {..<length leaves}"
    and "length (sortLeavesForInsert sortSort leaves) = length leaves"
    and "\<forall>ol\<in>set (sortLeavesForInsert sortSort leaves). idx ol < length leaves \<and> leaf ol = leaves ! idx ol"
    and "sorted_wrt (\<lambda>a b. bytesCompare (LeafIdentityHash (leaf a)) (LeafIdentityHash (leaf b)) \<le> 0)
           (sortLeavesForInsert sortSort leaves)"
proof -
  let ?ord = "sortLeavesForInsert sortSort leaves"
  from assms have s: "set ?ord = set (withPositions leaves)"
    and l: "length ?ord = length (withPositions leaves)"
    and o: "sorted_wrt (\<lambda>a b. \<not> byLeafIdentityHashWithPosition_Less b a) ?ord"
    by (simp_all add: sortContract_def sortLeavesForInsert_def)
  have "card (set ?ord) = length ?ord"
    using s l distinct_withPositions [of leaves] by (simp add: distinct_card)
  then have d: "distinct ?ord" by (rule card_distinct)
  show "distinct (map idx ?ord)"
    using d s inj_on_idx_withPositions [of leaves] by (simp add: distinct_map)
  have "set (map idx ?ord) = set (map idx (withPositions leaves))"
    using s by simp
  then show "set (map idx ?ord) = {..<length leaves}"
    by (simp only: map_idx_withPositions) auto
  show "length ?ord = length leaves" using l by simp
  show "\<forall>ol\<in>set ?ord. idx ol < length leaves \<and> leaf ol = leaves ! idx ol"
    using s in_withPositions by blast
  show "sorted_wrt (\<lambda>a b. bytesCompare (LeafIdentityHash (leaf a)) (LeafIdentityHash (leaf b)) \<le> 0) ?ord"
    using o by (simp add: not_Less_iff)
qed

text \<open>The record of the leaf inserts, the slots of the results and the stamping of the
  leaves, for the two loops.\<close>

lemma queueLeaf_trace:
  "queueLeaf t ol ex cnt = (Inr r, t') \<Longrightarrow>
   leafInserts t' = leafInserts t @ [LeafIdentityHash (leaf ol)]"
  by (auto simp: queueLeaf_def Let_def split: option.splits if_splits sum.splits)

lemma queueLoop_trace:
  "queueLoop t ols ex cnt = (Inr r, t') \<Longrightarrow>
   leafInserts t' = leafInserts t @ map (\<lambda>ol. LeafIdentityHash (leaf ol)) ols"
proof (induction ols arbitrary: t ex cnt)
  case Nil
  then show ?case by simp
next
  case (Cons ol ols)
  from Cons.prems obtain ex1 cnt1 t1 where
    s: "queueLeaf t ol ex cnt = (Inr (ex1, cnt1), t1)"
    and l: "queueLoop t1 ols ex1 cnt1 = (Inr r, t')"
    by (auto split: prod.splits sum.splits)
  from queueLeaf_trace [OF s] Cons.IH [OF l] show ?case by simp
qed

lemma addLeaf_trace:
  "addLeaf t ts ol res = (Inr r, t') \<Longrightarrow>
   leafInserts t' = leafInserts t @ [LeafIdentityHash (leaf ol)]"
  by (auto simp: addLeaf_def Let_def split: option.splits if_splits sum.splits)

lemma addLoop_trace:
  "addLoop t ts ols res = (Inr r, t') \<Longrightarrow>
   leafInserts t' = leafInserts t @ map (\<lambda>ol. LeafIdentityHash (leaf ol)) ols"
proof (induction ols arbitrary: t res)
  case Nil
  then show ?case by simp
next
  case (Cons ol ols)
  from Cons.prems obtain res1 t1 where
    s: "addLeaf t ts ol res = (Inr res1, t1)"
    and l: "addLoop t1 ts ols res1 = (Inr r, t')"
    by (auto split: prod.splits sum.splits)
  from addLeaf_trace [OF s] Cons.IH [OF l] show ?case by simp
qed

lemma stampLeaves_None:
  "stampLeaves hs ts leaves = (None, ls) \<Longrightarrow>
   ls = map (\<lambda>l. l\<lparr>QueueTimestamp := Some ts\<rparr>) leaves
   \<and> (\<forall>l\<in>set leaves. length (LeafIdentityHash l) = hs)
   \<and> (leaves = [] \<or> CheckValid ts)"
proof (induction leaves arbitrary: ls)
  case Nil
  then show ?case by simp
next
  case (Cons l leaves)
  from Cons.prems obtain ls' where
    h: "length (LeafIdentityHash l) = hs" and v: "CheckValid ts"
    and r: "stampLeaves hs ts leaves = (None, ls')"
    and e: "ls = l\<lparr>QueueTimestamp := Some ts\<rparr> # ls'"
    by (auto split: if_splits prod.splits)
  from Cons.IH [OF r] h v e show ?case by simp
qed

lemma stampLeaves_ok:
  "\<forall>l\<in>set leaves. length (LeafIdentityHash l) = hs \<Longrightarrow> CheckValid ts \<Longrightarrow>
   stampLeaves hs ts leaves = (None, map (\<lambda>l. l\<lparr>QueueTimestamp := Some ts\<rparr>) leaves)"
  by (induction leaves) auto

lemma queueLeaf_slots:
  "queueLeaf t ol ex cnt = (Inr (ex', cnt'), t') \<Longrightarrow>
   leaf ol = ls ! idx ol \<Longrightarrow>
   \<forall>i<length ex. \<forall>e. ex ! i = Some e \<longrightarrow> LeafIdentityHash e = LeafIdentityHash (ls ! i) \<Longrightarrow>
   length ex' = length ex
   \<and> (\<forall>i<length ex'. \<forall>e. ex' ! i = Some e \<longrightarrow> LeafIdentityHash e = LeafIdentityHash (ls ! i))"
  by (auto simp: queueLeaf_def Let_def nth_list_update split: option.splits if_splits sum.splits)

lemma queueLoop_slots:
  "queueLoop t ols ex cnt = (Inr (ex', cnt'), t') \<Longrightarrow>
   \<forall>ol\<in>set ols. leaf ol = ls ! idx ol \<Longrightarrow>
   \<forall>i<length ex. \<forall>e. ex ! i = Some e \<longrightarrow> LeafIdentityHash e = LeafIdentityHash (ls ! i) \<Longrightarrow>
   length ex' = length ex
   \<and> (\<forall>i<length ex'. \<forall>e. ex' ! i = Some e \<longrightarrow> LeafIdentityHash e = LeafIdentityHash (ls ! i))"
proof (induction ols arbitrary: t ex cnt)
  case Nil
  then show ?case by simp
next
  case (Cons ol ols)
  from Cons.prems(1) obtain ex1 cnt1 t1 where
    s: "queueLeaf t ol ex cnt = (Inr (ex1, cnt1), t1)"
    and l: "queueLoop t1 ols ex1 cnt1 = (Inr (ex', cnt'), t')"
    by (auto split: prod.splits sum.splits)
  from queueLeaf_slots [OF s _ Cons.prems(3)] Cons.prems(2)
  have 1: "length ex1 = length ex"
    and 2: "\<forall>i<length ex1. \<forall>e. ex1 ! i = Some e \<longrightarrow> LeafIdentityHash e = LeafIdentityHash (ls ! i)"
    by auto
  from Cons.IH [OF l _ 2] Cons.prems(2) 1 show ?case by auto
qed

lemma replaceExisting_slots:
  "replaceExisting results ex = Inr ex' \<Longrightarrow>
   list_all2 (\<lambda>a b. case a of None \<Rightarrow> b = None
                    | Some x \<Rightarrow> (\<exists>y. b = Some y \<and> LeafIdentityHash y = LeafIdentityHash x
                                     \<and> find (\<lambda>r. LeafIdentityHash r = LeafIdentityHash x) results = Some y))
     ex ex'"
proof (induction results ex arbitrary: ex' rule: replaceExisting.induct)
  case (1 results)
  then show ?case by simp
next
  case (2 results es)
  then show ?case by (auto split: sum.splits)
next
  case (3 results requested es)
  from "3.prems" obtain result es' where
    f: "find (\<lambda>r. LeafIdentityHash r = LeafIdentityHash requested) results = Some result"
    and r: "replaceExisting results es = Inr es'" and e: "ex' = Some result # es'"
    by (auto split: option.splits sum.splits)
  from f have "LeafIdentityHash result = LeafIdentityHash requested"
    by (auto simp: find_Some_iff)
  with "3.IH" [OF f r] f e show ?case by simp
qed

lemma addLeaf_slots:
  "addLeaf t ts ol res = (Inr res', t') \<Longrightarrow>
   length res' = length res \<and> idx ol < length res \<and> res' ! idx ol \<noteq> None
   \<and> (\<forall>i<length res. i \<noteq> idx ol \<longrightarrow> res' ! i = res ! i)"
  by (auto simp: addLeaf_def Let_def split: option.splits if_splits sum.splits)

lemma addLoop_slots:
  "addLoop t ts ols res = (Inr res', t') \<Longrightarrow>
   length res' = length res
   \<and> (\<forall>i<length res. res ! i \<noteq> None \<or> i \<in> idx ` set ols \<longrightarrow> res' ! i \<noteq> None)"
proof (induction ols arbitrary: t res)
  case Nil
  then show ?case by simp
next
  case (Cons ol ols)
  from Cons.prems obtain res1 t1 where
    s: "addLeaf t ts ol res = (Inr res1, t1)"
    and l: "addLoop t1 ts ols res1 = (Inr res', t')"
    by (auto split: prod.splits sum.splits)
  from addLeaf_slots [OF s] Cons.IH [OF l] show ?case
    by (metis (no_types, lifting) image_insert insertE list.simps(15))
qed

section \<open>Properties of adding sequenced leaves\<close>

text \<open>The statements of the model fail with the duplicate-entry error only; one leaf of
  the loop, with a hash of the right length and a position within the results, always
  yields its slot, in one of three ways.\<close>

lemma execInsertLeafData_error:
  "execInsertLeafData db r = Inl e \<Longrightarrow> isDuplicateErr e"
  by (auto simp: execInsertLeafData_def isDuplicateErr_def split: if_splits)

lemma execInsertSequencedLeaf_error:
  "execInsertSequencedLeaf db r = Inl e \<Longrightarrow> isDuplicateErr e"
  by (auto simp: execInsertSequencedLeaf_def isDuplicateErr_def split: if_splits)

lemma execInsertUnsequenced_error:
  "execInsertUnsequenced db r = Inl e \<Longrightarrow> isDuplicateErr e"
  by (auto simp: execInsertUnsequenced_def isDuplicateErr_def split: if_splits)

lemma addLeaf_cases:
  assumes "length (LeafIdentityHash (leaf ol)) = hashSizeBytes t" "idx ol < length res"
  shows "addLeaf t ts ol res =
     (case execInsertLeafData (tx t) (leafDataRowOf (treeID t) (leaf ol) (UnixNano ts)) of
        Inl e \<Rightarrow> (Inr (res[idx ol := statusSlot FailedPrecondition ''conflicting LeafIdentityHash'']),
                  t\<lparr>savepoint := Some (tx t),
                    leafInserts := leafInserts t @ [LeafIdentityHash (leaf ol)]\<rparr>)
      | Inr db1 \<Rightarrow>
          (case execInsertSequencedLeaf db1 (sequencedRowOf (treeID t) (leaf ol)) of
             Inl e \<Rightarrow> (Inr (res[idx ol := statusSlot FailedPrecondition ''conflicting LeafIndex'']),
                       t\<lparr>savepoint := Some (tx t),
                         leafInserts := leafInserts t @ [LeafIdentityHash (leaf ol)]\<rparr>)
           | Inr db2 \<Rightarrow> (Inr (res[idx ol := statusSlot OK ''OK'']),
                         t\<lparr>savepoint := Some (tx t),
                           leafInserts := leafInserts t @ [LeafIdentityHash (leaf ol)],
                           tx := db2\<rparr>)))"
  using assms
  by (auto simp: addLeaf_def Let_def split: sum.splits
      dest: execInsertLeafData_error execInsertSequencedLeaf_error)

lemma addLeaf_total:
  assumes "length (LeafIdentityHash (leaf ol)) = hashSizeBytes t" "idx ol < length res"
  shows "\<exists>res' t'. addLeaf t ts ol res = (Inr res', t') \<and> length res' = length res
      \<and> hashSizeBytes t' = hashSizeBytes t \<and> treeID t' = treeID t"
  unfolding addLeaf_cases [OF assms]
  by (auto split: sum.splits)

lemma addLoop_total:
  "\<forall>ol\<in>set ols. length (LeafIdentityHash (leaf ol)) = hashSizeBytes t \<and> idx ol < length res \<Longrightarrow>
   \<exists>res' t'. addLoop t ts ols res = (Inr res', t') \<and> length res' = length res
      \<and> hashSizeBytes t' = hashSizeBytes t \<and> treeID t' = treeID t"
proof (induction ols arbitrary: t res)
  case Nil
  then show ?case by simp
next
  case (Cons ol ols)
  from Cons.prems have "length (LeafIdentityHash (leaf ol)) = hashSizeBytes t" "idx ol < length res"
    by simp_all
  from addLeaf_total [OF this, of ts] obtain res1 t1 where
    s: "addLeaf t ts ol res = (Inr res1, t1)" and l: "length res1 = length res"
    and h: "hashSizeBytes t1 = hashSizeBytes t" and i: "treeID t1 = treeID t"
    by blast
  from Cons.prems l h
  have "\<forall>ol\<in>set ols. length (LeafIdentityHash (leaf ol)) = hashSizeBytes t1 \<and> idx ol < length res1"
    by simp
  from Cons.IH [OF this] s l h i show ?case by auto
qed

lemma addLoop_append:
  "addLoop t ts (xs @ ys) res =
     (case addLoop t ts xs res of
        (Inl e, t') \<Rightarrow> (Inl e, t')
      | (Inr res', t') \<Rightarrow> addLoop t' ts ys res')"
  by (induction xs arbitrary: t res) (auto split: prod.splits sum.splits)

lemma addLoop_untouched:
  "addLoop t ts ols res = (Inr res', t') \<Longrightarrow> i < length res \<Longrightarrow> i \<notin> idx ` set ols \<Longrightarrow>
   res' ! i = res ! i"
proof (induction ols arbitrary: t res)
  case Nil
  then show ?case by simp
next
  case (Cons ol ols)
  from Cons.prems(1) obtain res1 t1 where
    s: "addLeaf t ts ol res = (Inr res1, t1)"
    and l: "addLoop t1 ts ols res1 = (Inr res', t')"
    by (auto split: prod.splits sum.splits)
  from addLeaf_slots [OF s] Cons.prems(2,3)
  have "length res1 = length res" "res1 ! i = res ! i" by auto
  with Cons.IH [OF l] Cons.prems(2,3) show ?case by simp
qed

text \<open>The turn of the leaf at place \<open>p\<close> of the sorted slice, between the state the
  loop has reached before it and the state after it, and the slot of the final
  result.\<close>

lemma addLoop_step:
  assumes a: "\<forall>ol\<in>set ord. length (LeafIdentityHash (leaf ol)) = hashSizeBytes t0 \<and> idx ol < length res0"
    and d: "distinct (map idx ord)"
    and p: "p < length ord"
    and fin: "addLoop t0 ts ord res0 = (Inr res, t')"
  shows "\<exists>resp tp resq tq.
      addLoop t0 ts (take p ord) res0 = (Inr resp, tp)
      \<and> addLoop t0 ts (take (Suc p) ord) res0 = (Inr resq, tq)
      \<and> (case execInsertLeafData (tx tp) (leafDataRowOf (treeID t0) (leaf (ord ! p)) (UnixNano ts)) of
            Inl e \<Rightarrow> tx tq = tx tp
                \<and> res ! idx (ord ! p) = statusSlot FailedPrecondition ''conflicting LeafIdentityHash''
          | Inr db1 \<Rightarrow>
              (case execInsertSequencedLeaf db1 (sequencedRowOf (treeID t0) (leaf (ord ! p))) of
                 Inl e \<Rightarrow> tx tq = tx tp
                     \<and> res ! idx (ord ! p) = statusSlot FailedPrecondition ''conflicting LeafIndex''
               | Inr db2 \<Rightarrow> tx tq = db2 \<and> res ! idx (ord ! p) = statusSlot OK ''OK''))"
proof -
  let ?ol = "ord ! p"
  have sub: "\<forall>ol\<in>set (take p ord). length (LeafIdentityHash (leaf ol)) = hashSizeBytes t0 \<and> idx ol < length res0"
    using a by (meson in_set_takeD)
  from addLoop_total [OF sub, of ts] obtain resp tp where
    sp: "addLoop t0 ts (take p ord) res0 = (Inr resp, tp)" and lp: "length resp = length res0"
    and hp: "hashSizeBytes tp = hashSizeBytes t0" and ip: "treeID tp = treeID t0"
    by blast
  from a p have olh: "length (LeafIdentityHash (leaf ?ol)) = hashSizeBytes tp" and oli: "idx ?ol < length resp"
    using hp lp by simp_all
  note step = addLeaf_cases [OF olh oli, of ts]
  from addLeaf_total [OF olh oli, of ts] obtain resq tq where
    sq: "addLeaf tp ts ?ol resp = (Inr resq, tq)" and lq: "length resq = length res0"
    using lp by auto
  have tk: "take (Suc p) ord = take p ord @ [?ol]"
    using p by (simp add: take_Suc_conv_app_nth)
  have sq': "addLoop t0 ts (take (Suc p) ord) res0 = (Inr resq, tq)"
    by (simp add: tk addLoop_append sp sq)
  have "ord = take (Suc p) ord @ drop (Suc p) ord" by simp
  then have "addLoop t0 ts ord res0 = addLoop tq ts (drop (Suc p) ord) resq"
    using addLoop_append [of t0 ts "take (Suc p) ord" "drop (Suc p) ord" res0] sq' by simp
  with fin have rest: "addLoop tq ts (drop (Suc p) ord) resq = (Inr res, t')" by simp
  have "idx ?ol \<notin> idx ` set (drop (Suc p) ord)"
  proof -
    have "distinct (map idx (take (Suc p) ord @ drop (Suc p) ord))" using d by simp
    then have "set (map idx (take (Suc p) ord)) \<inter> set (map idx (drop (Suc p) ord)) = {}"
      by (simp only: map_append distinct_append)
    moreover have "idx ?ol \<in> set (map idx (take (Suc p) ord))" by (simp add: tk)
    ultimately show ?thesis by auto
  qed
  from addLoop_untouched [OF rest _ this] oli lp lq
  have keep: "res ! idx ?ol = resq ! idx ?ol" by simp
  have "(case execInsertLeafData (tx tp) (leafDataRowOf (treeID t0) (leaf ?ol) (UnixNano ts)) of
            Inl e \<Rightarrow> tx tq = tx tp
                \<and> resq ! idx ?ol = statusSlot FailedPrecondition ''conflicting LeafIdentityHash''
          | Inr db1 \<Rightarrow>
              (case execInsertSequencedLeaf db1 (sequencedRowOf (treeID t0) (leaf ?ol)) of
                 Inl e \<Rightarrow> tx tq = tx tp
                     \<and> resq ! idx ?ol = statusSlot FailedPrecondition ''conflicting LeafIndex''
               | Inr db2 \<Rightarrow> tx tq = db2 \<and> resq ! idx ?ol = statusSlot OK ''OK''))"
    using sq oli unfolding step ip
    by (auto split: sum.splits)
  with sp sq' keep show ?thesis by (auto split: sum.splits)
qed

text \<open>The tables grow by the rows of the leaves whose slot is OK, and by nothing else.\<close>

lemma execInsertLeafData_Inr:
  "execInsertLeafData db r = Inr db1 \<Longrightarrow> db1 = db\<lparr>LeafData := LeafData db @ [r]\<rparr>"
  by (auto simp: execInsertLeafData_def split: if_splits)

lemma execInsertSequencedLeaf_Inr:
  "execInsertSequencedLeaf db r = Inr db1 \<Longrightarrow> db1 = db\<lparr>SequencedLeafData := SequencedLeafData db @ [r]\<rparr>"
  by (auto simp: execInsertSequencedLeaf_def split: if_splits)

lemma execInsertUnsequenced_Inr:
  "execInsertUnsequenced db r = Inr db1 \<Longrightarrow> db1 = db\<lparr>Unsequenced := Unsequenced db @ [r]\<rparr>"
  by (auto simp: execInsertUnsequenced_def split: if_splits)

lemma addLoop_tables:
  assumes a: "\<forall>ol\<in>set ord. length (LeafIdentityHash (leaf ol)) = hashSizeBytes t0 \<and> idx ol < length res0"
    and d: "distinct (map idx ord)"
    and fin: "addLoop t0 ts ord res0 = (Inr res, t')"
  shows "p \<le> length ord \<Longrightarrow>
     LeafData (tx (snd (addLoop t0 ts (take p ord) res0)))
       = LeafData (tx t0) @ map (\<lambda>ol. leafDataRowOf (treeID t0) (leaf ol) (UnixNano ts))
           (filter (\<lambda>ol. res ! idx ol = statusSlot OK ''OK'') (take p ord))
     \<and> SequencedLeafData (tx (snd (addLoop t0 ts (take p ord) res0)))
       = SequencedLeafData (tx t0) @ map (\<lambda>ol. sequencedRowOf (treeID t0) (leaf ol))
           (filter (\<lambda>ol. res ! idx ol = statusSlot OK ''OK'') (take p ord))"
proof (induction p)
  case 0
  then show ?case by simp
next
  case (Suc p)
  then have p: "p < length ord" by simp
  from addLoop_step [OF a d p fin] obtain resp tp resq tq where
    sp: "addLoop t0 ts (take p ord) res0 = (Inr resp, tp)"
    and sq: "addLoop t0 ts (take (Suc p) ord) res0 = (Inr resq, tq)"
    and c: "(case execInsertLeafData (tx tp) (leafDataRowOf (treeID t0) (leaf (ord ! p)) (UnixNano ts)) of
            Inl e \<Rightarrow> tx tq = tx tp
                \<and> res ! idx (ord ! p) = statusSlot FailedPrecondition ''conflicting LeafIdentityHash''
          | Inr db1 \<Rightarrow>
              (case execInsertSequencedLeaf db1 (sequencedRowOf (treeID t0) (leaf (ord ! p))) of
                 Inl e \<Rightarrow> tx tq = tx tp
                     \<and> res ! idx (ord ! p) = statusSlot FailedPrecondition ''conflicting LeafIndex''
               | Inr db2 \<Rightarrow> tx tq = db2 \<and> res ! idx (ord ! p) = statusSlot OK ''OK''))"
    by blast
  from Suc.IH p sp
  have ih1: "LeafData (tx tp) = LeafData (tx t0) @ map (\<lambda>ol. leafDataRowOf (treeID t0) (leaf ol) (UnixNano ts))
           (filter (\<lambda>ol. res ! idx ol = statusSlot OK ''OK'') (take p ord))"
    and ih2: "SequencedLeafData (tx tp) = SequencedLeafData (tx t0) @ map (\<lambda>ol. sequencedRowOf (treeID t0) (leaf ol))
           (filter (\<lambda>ol. res ! idx ol = statusSlot OK ''OK'') (take p ord))"
    by simp_all
  have tk: "take (Suc p) ord = take p ord @ [ord ! p]"
    using p by (simp add: take_Suc_conv_app_nth)
  have e: "snd (addLoop t0 ts (take (Suc p) ord) res0) = tq"
    using sq by simp
  have "LeafData (tx tq)
       = LeafData (tx t0) @ map (\<lambda>ol. leafDataRowOf (treeID t0) (leaf ol) (UnixNano ts))
           (filter (\<lambda>ol. res ! idx ol = statusSlot OK ''OK'') (take (Suc p) ord))
     \<and> SequencedLeafData (tx tq)
       = SequencedLeafData (tx t0) @ map (\<lambda>ol. sequencedRowOf (treeID t0) (leaf ol))
           (filter (\<lambda>ol. res ! idx ol = statusSlot OK ''OK'') (take (Suc p) ord))"
  proof (cases "execInsertLeafData (tx tp) (leafDataRowOf (treeID t0) (leaf (ord ! p)) (UnixNano ts))")
    case (Inl e)
    with c ih1 ih2 show ?thesis by (simp add: tk)
  next
    case (Inr db1)
    note l = execInsertLeafData_Inr [OF Inr]
    show ?thesis
    proof (cases "execInsertSequencedLeaf db1 (sequencedRowOf (treeID t0) (leaf (ord ! p)))")
      case (Inl e)
      with c Inr ih1 ih2 show ?thesis by (simp add: tk)
    next
      case (Inr db2)
      note s = execInsertSequencedLeaf_Inr [OF Inr]
      from c \<open>execInsertLeafData _ _ = Inr db1\<close> Inr
      have "tx tq = db2" "res ! idx (ord ! p) = statusSlot OK ''OK''" by simp_all
      with ih1 ih2 l s show ?thesis by (simp add: tk)
    qed
  qed
  then show ?case unfolding e .
qed

text \<open>
  Claim C4. The sequenced insert conflicts exactly when the sequence number or the
  identity hash of the leaf is taken in \<open>SequencedLeafData\<close> for the tree. For a batch
  whose leaves all have identity hashes of the hasher's length (and the library sort
  keeping its promise), \<open>AddSequencedLeaves\<close> returns one result slot for each leaf and
  never aborts on a conflict. In the turn of each leaf of the sorted slice, between the
  state the loop has reached before and the state after: when the sequenced insert
  conflicts, the tables afterwards are the tables before, so the leaf-data row that
  was just inserted is gone, and the slot of the leaf is FAILED_PRECONDITION; so are
  they when the leaf insert itself conflicts; otherwise both rows are in and the slot
  is OK; and the loop goes on to the next leaf. In the end the leaf table and the
  sequence table have grown by the rows of exactly the leaves whose slot is OK.
\<close>

theorem AddSequencedLeaves_atomic_per_leaf:
  assumes "sortContract sortSort (withPositions leaves)"
    and "\<forall>l\<in>set leaves. length (LeafIdentityHash l) = hashSizeBytes t"
  shows "(\<forall>db r. (\<exists>e. execInsertSequencedLeaf db r = Inl e)
             \<longleftrightarrow> (\<exists>x\<in>set (SequencedLeafData db). sq_TreeId x = sq_TreeId r
                    \<and> (sq_SequenceNumber x = sq_SequenceNumber r
                       \<or> sq_LeafIdentityHash x = sq_LeafIdentityHash r)))
    \<and> (\<exists>res t'.
      logTreeTX_AddSequencedLeaves sortSort t leaves timestamp = (Inr res, t')
      \<and> length res = length leaves
      \<and> (\<forall>p<length (sortLeavesForInsert sortSort leaves). \<exists>resp tp resq tq.
            addLoop (t\<lparr>savepoint := Some (tx t)\<rparr>) timestamp
                (take p (sortLeavesForInsert sortSort leaves)) (replicate (length leaves) None)
              = (Inr resp, tp)
            \<and> addLoop (t\<lparr>savepoint := Some (tx t)\<rparr>) timestamp
                (take (Suc p) (sortLeavesForInsert sortSort leaves)) (replicate (length leaves) None)
              = (Inr resq, tq)
            \<and> (case execInsertLeafData (tx tp)
                      (leafDataRowOf (treeID t) (leaf (sortLeavesForInsert sortSort leaves ! p))
                         (UnixNano timestamp)) of
                  Inl e \<Rightarrow> tx tq = tx tp
                      \<and> res ! idx (sortLeavesForInsert sortSort leaves ! p)
                          = statusSlot FailedPrecondition ''conflicting LeafIdentityHash''
                | Inr db1 \<Rightarrow>
                    (case execInsertSequencedLeaf db1
                            (sequencedRowOf (treeID t) (leaf (sortLeavesForInsert sortSort leaves ! p))) of
                       Inl e \<Rightarrow> tx tq = tx tp
                           \<and> res ! idx (sortLeavesForInsert sortSort leaves ! p)
                               = statusSlot FailedPrecondition ''conflicting LeafIndex''
                     | Inr db2 \<Rightarrow> tx tq = db2
                           \<and> res ! idx (sortLeavesForInsert sortSort leaves ! p) = statusSlot OK ''OK'')))
      \<and> LeafData (tx t')
          = LeafData (tx t) @ map (\<lambda>ol. leafDataRowOf (treeID t) (leaf ol) (UnixNano timestamp))
              (filter (\<lambda>ol. res ! idx ol = statusSlot OK ''OK'') (sortLeavesForInsert sortSort leaves))
      \<and> SequencedLeafData (tx t')
          = SequencedLeafData (tx t) @ map (\<lambda>ol. sequencedRowOf (treeID t) (leaf ol))
              (filter (\<lambda>ol. res ! idx ol = statusSlot OK ''OK'') (sortLeavesForInsert sortSort leaves)))"
proof -
  let ?ord = "sortLeavesForInsert sortSort leaves"
  let ?t0 = "t\<lparr>savepoint := Some (tx t)\<rparr>"
  let ?res0 = "replicate (length leaves) (None :: QueuedLogLeaf option)"
  note sp = sorted_positions [OF assms(1)]
  have a: "\<forall>ol\<in>set ?ord. length (LeafIdentityHash (leaf ol)) = hashSizeBytes ?t0 \<and> idx ol < length ?res0"
    using sp(4) assms(2) by auto
  from addLoop_total [OF a, of timestamp] obtain res t2 where
    fin: "addLoop ?t0 timestamp ?ord ?res0 = (Inr res, t2)" and len: "length res = length leaves"
    by auto
  have run: "logTreeTX_AddSequencedLeaves sortSort t leaves timestamp = (Inr res, t2\<lparr>savepoint := None\<rparr>)"
    by (simp add: logTreeTX_AddSequencedLeaves_def fin)
  have steps: "\<forall>p<length ?ord. \<exists>resp tp resq tq.
            addLoop ?t0 timestamp (take p ?ord) ?res0 = (Inr resp, tp)
            \<and> addLoop ?t0 timestamp (take (Suc p) ?ord) ?res0 = (Inr resq, tq)
            \<and> (case execInsertLeafData (tx tp)
                      (leafDataRowOf (treeID t) (leaf (?ord ! p)) (UnixNano timestamp)) of
                  Inl e \<Rightarrow> tx tq = tx tp
                      \<and> res ! idx (?ord ! p) = statusSlot FailedPrecondition ''conflicting LeafIdentityHash''
                | Inr db1 \<Rightarrow>
                    (case execInsertSequencedLeaf db1 (sequencedRowOf (treeID t) (leaf (?ord ! p))) of
                       Inl e \<Rightarrow> tx tq = tx tp
                           \<and> res ! idx (?ord ! p) = statusSlot FailedPrecondition ''conflicting LeafIndex''
                     | Inr db2 \<Rightarrow> tx tq = db2 \<and> res ! idx (?ord ! p) = statusSlot OK ''OK''))"
  proof (intro allI impI)
    fix p assume "p < length ?ord"
    have tid: "treeID ?t0 = treeID t" by simp
    from addLoop_step [OF a sp(1) \<open>p < length ?ord\<close> fin, unfolded tid] show "\<exists>resp tp resq tq.
            addLoop ?t0 timestamp (take p ?ord) ?res0 = (Inr resp, tp)
            \<and> addLoop ?t0 timestamp (take (Suc p) ?ord) ?res0 = (Inr resq, tq)
            \<and> (case execInsertLeafData (tx tp)
                      (leafDataRowOf (treeID t) (leaf (?ord ! p)) (UnixNano timestamp)) of
                  Inl e \<Rightarrow> tx tq = tx tp
                      \<and> res ! idx (?ord ! p) = statusSlot FailedPrecondition ''conflicting LeafIdentityHash''
                | Inr db1 \<Rightarrow>
                    (case execInsertSequencedLeaf db1 (sequencedRowOf (treeID t) (leaf (?ord ! p))) of
                       Inl e \<Rightarrow> tx tq = tx tp
                           \<and> res ! idx (?ord ! p) = statusSlot FailedPrecondition ''conflicting LeafIndex''
                     | Inr db2 \<Rightarrow> tx tq = db2 \<and> res ! idx (?ord ! p) = statusSlot OK ''OK''))" .
  qed
  from addLoop_tables [OF a sp(1) fin, of "length ?ord"] fin
  have tabs: "LeafData (tx t2)
          = LeafData (tx t) @ map (\<lambda>ol. leafDataRowOf (treeID t) (leaf ol) (UnixNano timestamp))
              (filter (\<lambda>ol. res ! idx ol = statusSlot OK ''OK'') ?ord)"
    "SequencedLeafData (tx t2)
          = SequencedLeafData (tx t) @ map (\<lambda>ol. sequencedRowOf (treeID t) (leaf ol))
              (filter (\<lambda>ol. res ! idx ol = statusSlot OK ''OK'') ?ord)"
    by simp_all
  have conflict: "\<forall>db r. (\<exists>e. execInsertSequencedLeaf db r = Inl e)
             \<longleftrightarrow> (\<exists>x\<in>set (SequencedLeafData db). sq_TreeId x = sq_TreeId r
                    \<and> (sq_SequenceNumber x = sq_SequenceNumber r
                       \<or> sq_LeafIdentityHash x = sq_LeafIdentityHash r))"
    by (simp add: execInsertSequencedLeaf_def)
  show ?thesis
    apply (rule conjI [OF conflict])
    apply (rule exI [of _ res], rule exI [of _ "t2\<lparr>savepoint := None\<rparr>"])
    using run len steps tabs by simp
qed

theorem AddSequencedLeaves_atomic_per_leaf_witness:
  "sortContract insertionSort (withPositions addBatch)
   \<and> map (\<lambda>l. length (LeafIdentityHash l)) addBatch = [32, 32, 32, 32]
   \<and> hashSizeBytes addTx = 32
   \<and> map idx (sortLeavesForInsert insertionSort addBatch) = [3, 2, 1, 0]
   \<and> projr (fst (logTreeTX_AddSequencedLeaves insertionSort addTx addBatch 50))
       = [statusSlot FailedPrecondition ''conflicting LeafIndex'',
          statusSlot FailedPrecondition ''conflicting LeafIndex'',
          statusSlot FailedPrecondition ''conflicting LeafIdentityHash'',
          statusSlot OK ''OK'']
   \<and> map ld_LeafValue (LeafData (tx (snd (logTreeTX_AddSequencedLeaves insertionSort addTx addBatch 50))))
       = [[20], [10]]
   \<and> map sq_SequenceNumber
         (SequencedLeafData (tx (snd (logTreeTX_AddSequencedLeaves insertionSort addTx addBatch 50))))
       = [0, 1]"
proof -
  let ?A = "logTreeTX_AddSequencedLeaves insertionSort addTx addBatch 50"
  let ?ord = "sortLeavesForInsert insertionSort addBatch"
  have c: "sortContract insertionSort (withPositions addBatch)"
    by code_simp
  have h: "\<forall>l\<in>set addBatch. length (LeafIdentityHash l) = hashSizeBytes addTx"
    by code_simp
  have i: "map idx ?ord = [3, 2, 1, 0]"
    by code_simp
  have r: "projr (fst ?A)
       = [statusSlot FailedPrecondition ''conflicting LeafIndex'',
          statusSlot FailedPrecondition ''conflicting LeafIndex'',
          statusSlot FailedPrecondition ''conflicting LeafIdentityHash'',
          statusSlot OK ''OK'']"
    by code_simp
  from AddSequencedLeaves_atomic_per_leaf [OF c h, of 50, THEN conjunct2] obtain res t' where
    run: "?A = (Inr res, t')"
    and l: "LeafData (tx t')
          = LeafData (tx addTx) @ map (\<lambda>ol. leafDataRowOf (treeID addTx) (leaf ol) (UnixNano 50))
              (filter (\<lambda>ol. res ! idx ol = statusSlot OK ''OK'') ?ord)"
    and s: "SequencedLeafData (tx t')
          = SequencedLeafData (tx addTx) @ map (\<lambda>ol. sequencedRowOf (treeID addTx) (leaf ol))
              (filter (\<lambda>ol. res ! idx ol = statusSlot OK ''OK'') ?ord)"
    by blast
  from run have res: "res = projr (fst ?A)" and t': "t' = snd ?A" by simp_all
  have "map ld_LeafValue (LeafData (tx addTx) @ map (\<lambda>ol. leafDataRowOf (treeID addTx) (leaf ol) (UnixNano 50))
              (filter (\<lambda>ol. projr (fst ?A) ! idx ol = statusSlot OK ''OK'') ?ord)) = [[20], [10]]"
    by code_simp
  with l have lv: "map ld_LeafValue (LeafData (tx (snd ?A))) = [[20], [10]]"
    unfolding res t' by simp
  have "map sq_SequenceNumber (SequencedLeafData (tx addTx) @ map (\<lambda>ol. sequencedRowOf (treeID addTx) (leaf ol))
              (filter (\<lambda>ol. projr (fst ?A) ! idx ol = statusSlot OK ''OK'') ?ord)) = [0, 1]"
    by code_simp
  with s have sv: "map sq_SequenceNumber (SequencedLeafData (tx (snd ?A))) = [0, 1]"
    unfolding res t' by simp
  have h': "map (\<lambda>l. length (LeafIdentityHash l)) addBatch = [32, 32, 32, 32]"
    "hashSizeBytes addTx = 32"
    by code_simp+
  from c h' i r lv sv show ?thesis by blast
qed

section \<open>Properties of queueing\<close>

text \<open>One leaf of the loop of \<open>QueueLeaves\<close>, stamped with a valid timestamp and with a
  position within the slice, on tables that keep the schema: the leaf is remembered if
  the tree holds its hash and queued otherwise, and the tables keep the schema.\<close>

lemma in_leafHashes:
  "h \<in> set (leafHashes db tid)
   \<longleftrightarrow> (\<exists>l\<in>set (LeafData db). ld_TreeId l = tid \<and> ld_LeafIdentityHash l = h)"
  by (auto simp: leafHashes_def)

lemma schemaOK_append_leaf:
  assumes "schemaOK db" "LeafIdentityHash lf \<notin> set (leafHashes db tid)"
  shows "schemaOK (db\<lparr>LeafData := LeafData db @ [leafDataRowOf tid lf n],
                     Unsequenced := Unsequenced db @ [unsequencedRowOf tid lf m]\<rparr>)"
  using assms
  by (auto simp: schemaOK_def in_leafHashes)

lemma queueLeaf_cases:
  assumes q: "QueueTimestamp (leaf ol) = Some q" and v: "CheckValid q"
    and i: "idx ol < length ex" and ok: "schemaOK (tx t)"
  shows "queueLeaf t ol ex cnt =
     (if LeafIdentityHash (leaf ol) \<in> set (leafHashes (tx t) (treeID t))
      then (Inr (ex[idx ol := Some (leaf ol)], cnt + 1),
            t\<lparr>leafInserts := leafInserts t @ [LeafIdentityHash (leaf ol)]\<rparr>)
      else (Inr (ex, cnt),
            t\<lparr>leafInserts := leafInserts t @ [LeafIdentityHash (leaf ol)],
              tx := (tx t)\<lparr>LeafData := LeafData (tx t) @ [leafDataRowOf (treeID t) (leaf ol) (UnixNano q)],
                            Unsequenced := Unsequenced (tx t)
                               @ [unsequencedRowOf (treeID t) (leaf ol) (UnixNano q)]\<rparr>\<rparr>))"
proof (cases "LeafIdentityHash (leaf ol) \<in> set (leafHashes (tx t) (treeID t))")
  case True
  then have "execInsertLeafData (tx t) (leafDataRowOf (treeID t) (leaf ol) (UnixNano q)) = Inl DuplicateEntry"
    by (auto simp: execInsertLeafData_def in_leafHashes)
  with True q v i show ?thesis
    by (simp add: queueLeaf_def Let_def isDuplicateErr_def)
next
  case False
  then have l: "execInsertLeafData (tx t) (leafDataRowOf (treeID t) (leaf ol) (UnixNano q))
      = Inr ((tx t)\<lparr>LeafData := LeafData (tx t) @ [leafDataRowOf (treeID t) (leaf ol) (UnixNano q)]\<rparr>)"
    by (auto simp: execInsertLeafData_def in_leafHashes)
  have "\<not> (\<exists>r\<in>set (Unsequenced (tx t)). us_TreeId r = treeID t
            \<and> us_LeafIdentityHash r = LeafIdentityHash (leaf ol))"
    using ok False by (auto simp: schemaOK_def in_leafHashes)
  then have u: "execInsertUnsequenced
        ((tx t)\<lparr>LeafData := LeafData (tx t) @ [leafDataRowOf (treeID t) (leaf ol) (UnixNano q)]\<rparr>)
        (unsequencedRowOf (treeID t) (leaf ol) (UnixNano q))
      = Inr ((tx t)\<lparr>LeafData := LeafData (tx t) @ [leafDataRowOf (treeID t) (leaf ol) (UnixNano q)],
                    Unsequenced := Unsequenced (tx t) @ [unsequencedRowOf (treeID t) (leaf ol) (UnixNano q)]\<rparr>)"
    by (auto simp: execInsertUnsequenced_def)
  from False q v l u show ?thesis
    by (simp add: queueLeaf_def Let_def)
qed

lemma queueLeaf_total:
  assumes q: "QueueTimestamp (leaf ol) = Some q" and v: "CheckValid q"
    and i: "idx ol < length ex" and ok: "schemaOK (tx t)"
  shows "\<exists>ex' cnt' t'. queueLeaf t ol ex cnt = (Inr (ex', cnt'), t')
      \<and> length ex' = length ex \<and> schemaOK (tx t') \<and> treeID t' = treeID t
      \<and> hashSizeBytes t' = hashSizeBytes t
      \<and> set (leafHashes (tx t') (treeID t))
          = insert (LeafIdentityHash (leaf ol)) (set (leafHashes (tx t) (treeID t)))
      \<and> SequencedLeafData (tx t') = SequencedLeafData (tx t)"
proof (cases "LeafIdentityHash (leaf ol) \<in> set (leafHashes (tx t) (treeID t))")
  case True
  then show ?thesis
    unfolding queueLeaf_cases [OF assms] using ok by auto
next
  case False
  from schemaOK_append_leaf [OF ok False, of "UnixNano q" "UnixNano q"]
  have "schemaOK ((tx t)\<lparr>LeafData := LeafData (tx t) @ [leafDataRowOf (treeID t) (leaf ol) (UnixNano q)],
                    Unsequenced := Unsequenced (tx t) @ [unsequencedRowOf (treeID t) (leaf ol) (UnixNano q)]\<rparr>)" .
  with False show ?thesis
    unfolding queueLeaf_cases [OF assms] by (auto simp: in_leafHashes)
qed

text \<open>The loop of \<open>QueueLeaves\<close> runs to its end, and what it leaves alone.\<close>

lemma queueLoop_total:
  "\<forall>ol\<in>set ols. QueueTimestamp (leaf ol) = Some q \<and> idx ol < length ex \<Longrightarrow> CheckValid q \<Longrightarrow>
   schemaOK (tx t) \<Longrightarrow>
   \<exists>ex' cnt' t'. queueLoop t ols ex cnt = (Inr (ex', cnt'), t')
      \<and> length ex' = length ex \<and> schemaOK (tx t') \<and> treeID t' = treeID t
      \<and> hashSizeBytes t' = hashSizeBytes t
      \<and> set (leafHashes (tx t') (treeID t))
          = set (leafHashes (tx t) (treeID t)) \<union> (\<lambda>ol. LeafIdentityHash (leaf ol)) ` set ols
      \<and> SequencedLeafData (tx t') = SequencedLeafData (tx t)"
proof (induction ols arbitrary: t ex cnt)
  case Nil
  then show ?case by simp
next
  case (Cons ol ols)
  from Cons.prems have q: "QueueTimestamp (leaf ol) = Some q" and i: "idx ol < length ex"
    by simp_all
  from queueLeaf_total [OF q Cons.prems(2) i Cons.prems(3), of cnt] obtain ex1 cnt1 t1 where
    s: "queueLeaf t ol ex cnt = (Inr (ex1, cnt1), t1)" and l: "length ex1 = length ex"
    and ok: "schemaOK (tx t1)" and tid: "treeID t1 = treeID t"
    and hs: "hashSizeBytes t1 = hashSizeBytes t"
    and h: "set (leafHashes (tx t1) (treeID t))
          = insert (LeafIdentityHash (leaf ol)) (set (leafHashes (tx t) (treeID t)))"
    and sq: "SequencedLeafData (tx t1) = SequencedLeafData (tx t)"
    by blast
  from Cons.prems(1) l
  have "\<forall>ol\<in>set ols. QueueTimestamp (leaf ol) = Some q \<and> idx ol < length ex1" by simp
  from Cons.IH [OF this Cons.prems(2) ok, of cnt1] obtain ex' cnt' t' where
    r: "queueLoop t1 ols ex1 cnt1 = (Inr (ex', cnt'), t')" and l': "length ex' = length ex1"
    and ok': "schemaOK (tx t')" and tid': "treeID t' = treeID t1"
    and hs': "hashSizeBytes t' = hashSizeBytes t1"
    and h': "set (leafHashes (tx t') (treeID t1))
          = set (leafHashes (tx t1) (treeID t1)) \<union> (\<lambda>ol. LeafIdentityHash (leaf ol)) ` set ols"
    and sq': "SequencedLeafData (tx t') = SequencedLeafData (tx t1)"
    by blast
  have "queueLoop t (ol # ols) ex cnt = (Inr (ex', cnt'), t')"
    by (simp add: s r)
  moreover have "set (leafHashes (tx t') (treeID t))
          = set (leafHashes (tx t) (treeID t)) \<union> (\<lambda>ol. LeafIdentityHash (leaf ol)) ` set (ol # ols)"
    using h h' tid by auto
  ultimately show ?case
    using l l' ok' tid tid' hs hs' sq sq' by simp
qed

lemma queueLoop_append:
  "queueLoop t (xs @ ys) ex cnt =
     (case queueLoop t xs ex cnt of
        (Inl e, t') \<Rightarrow> (Inl e, t')
      | (Inr (ex', cnt'), t') \<Rightarrow> queueLoop t' ys ex' cnt')"
  by (induction xs arbitrary: t ex cnt) (auto split: prod.splits sum.splits)

lemma queueLeaf_frame:
  "queueLeaf t ol ex cnt = (Inr (ex', cnt'), t') \<Longrightarrow>
   length ex' = length ex \<and> (\<forall>i. i \<noteq> idx ol \<longrightarrow> ex' ! i = ex ! i)
   \<and> cnt \<le> cnt' \<and> (cnt' = cnt \<longrightarrow> ex' = ex)"
  by (auto simp: queueLeaf_def Let_def split: option.splits if_splits sum.splits)

lemma queueLoop_frame:
  "queueLoop t ols ex cnt = (Inr (ex', cnt'), t') \<Longrightarrow>
   length ex' = length ex \<and> (\<forall>i. i \<notin> idx ` set ols \<longrightarrow> ex' ! i = ex ! i)
   \<and> cnt \<le> cnt' \<and> (cnt' = cnt \<longrightarrow> ex' = ex)"
proof (induction ols arbitrary: t ex cnt)
  case Nil
  then show ?case by simp
next
  case (Cons ol ols)
  from Cons.prems obtain ex1 cnt1 t1 where
    s: "queueLeaf t ol ex cnt = (Inr (ex1, cnt1), t1)"
    and l: "queueLoop t1 ols ex1 cnt1 = (Inr (ex', cnt'), t')"
    by (auto split: prod.splits sum.splits)
  from queueLeaf_frame [OF s] Cons.IH [OF l] show ?case
    by (auto simp: le_antisym)
qed

text \<open>The turn of the leaf at place \<open>p\<close> of the sorted slice in \<open>QueueLeaves\<close>: the
  leaf is a duplicate exactly when the tree held its hash before the call or an
  earlier leaf of the sorted slice has it; and the rows the loop adds.\<close>

lemma queueLoop_step:
  assumes a: "\<forall>ol\<in>set ord. QueueTimestamp (leaf ol) = Some q \<and> idx ol < length ex0"
    and v: "CheckValid q" and ok: "schemaOK (tx t0)"
    and d: "distinct (map idx ord)"
    and p: "p < length ord"
    and fin: "queueLoop t0 ord ex0 cnt0 = (Inr (ex, cnt), t')"
  shows "\<exists>exp cntp tp exq cntq tq.
      queueLoop t0 (take p ord) ex0 cnt0 = (Inr (exp, cntp), tp)
      \<and> queueLoop t0 (take (Suc p) ord) ex0 cnt0 = (Inr (exq, cntq), tq)
      \<and> (if LeafIdentityHash (leaf (ord ! p))
              \<in> set (leafHashes (tx t0) (treeID t0))
                \<union> (\<lambda>ol. LeafIdentityHash (leaf ol)) ` set (take p ord)
          then ex ! idx (ord ! p) = Some (leaf (ord ! p)) \<and> tx tq = tx tp
          else ex ! idx (ord ! p) = ex0 ! idx (ord ! p)
             \<and> tx tq = (tx tp)\<lparr>LeafData := LeafData (tx tp)
                                    @ [leafDataRowOf (treeID t0) (leaf (ord ! p)) (UnixNano q)],
                                  Unsequenced := Unsequenced (tx tp)
                                    @ [unsequencedRowOf (treeID t0) (leaf (ord ! p)) (UnixNano q)]\<rparr>)"
proof -
  let ?ol = "ord ! p"
  let ?h = "\<lambda>ol. LeafIdentityHash (leaf ol)"
  have sub: "\<forall>ol\<in>set (take p ord). QueueTimestamp (leaf ol) = Some q \<and> idx ol < length ex0"
    using a by (meson in_set_takeD)
  from queueLoop_total [OF sub v ok, of cnt0] obtain exp cntp tp where
    sp: "queueLoop t0 (take p ord) ex0 cnt0 = (Inr (exp, cntp), tp)" and lp: "length exp = length ex0"
    and okp: "schemaOK (tx tp)" and ip: "treeID tp = treeID t0"
    and hp: "set (leafHashes (tx tp) (treeID t0))
          = set (leafHashes (tx t0) (treeID t0)) \<union> ?h ` set (take p ord)"
    by blast
  from a p have olq: "QueueTimestamp (leaf ?ol) = Some q" and oli: "idx ?ol < length exp"
    using lp by simp_all
  note step = queueLeaf_cases [OF olq v oli okp, of cntp]
  from queueLeaf_total [OF olq v oli okp, of cntp] obtain exq cntq tq where
    sq: "queueLeaf tp ?ol exp cntp = (Inr (exq, cntq), tq)" and lq: "length exq = length ex0"
    using lp by auto
  have tk: "take (Suc p) ord = take p ord @ [?ol]"
    using p by (simp add: take_Suc_conv_app_nth)
  have sq': "queueLoop t0 (take (Suc p) ord) ex0 cnt0 = (Inr (exq, cntq), tq)"
    by (simp add: tk queueLoop_append sp sq)
  have "ord = take (Suc p) ord @ drop (Suc p) ord" by simp
  then have "queueLoop t0 ord ex0 cnt0 = queueLoop tq (drop (Suc p) ord) exq cntq"
    using queueLoop_append [of t0 "take (Suc p) ord" "drop (Suc p) ord" ex0 cnt0] sq' by simp
  with fin have rest: "queueLoop tq (drop (Suc p) ord) exq cntq = (Inr (ex, cnt), t')" by simp
  have dd: "distinct (map idx (take p ord @ [?ol] @ drop (Suc p) ord))"
    using d p by (simp add: id_take_nth_drop [symmetric])
  have n1: "idx ?ol \<notin> idx ` set (drop (Suc p) ord)"
    using dd by auto
  have n2: "idx ?ol \<notin> idx ` set (take p ord)"
    using dd by auto
  from queueLoop_frame [OF rest] n1 have keep: "ex ! idx ?ol = exq ! idx ?ol" by simp
  from queueLoop_frame [OF sp] n2 have before: "exp ! idx ?ol = ex0 ! idx ?ol" by simp
  have "(if ?h ?ol \<in> set (leafHashes (tx t0) (treeID t0)) \<union> ?h ` set (take p ord)
          then exq ! idx ?ol = Some (leaf ?ol) \<and> tx tq = tx tp
          else exq ! idx ?ol = exp ! idx ?ol
             \<and> tx tq = (tx tp)\<lparr>LeafData := LeafData (tx tp)
                                    @ [leafDataRowOf (treeID t0) (leaf ?ol) (UnixNano q)],
                                  Unsequenced := Unsequenced (tx tp)
                                    @ [unsequencedRowOf (treeID t0) (leaf ?ol) (UnixNano q)]\<rparr>)"
    using sq oli unfolding step ip hp [symmetric]
    by (auto split: if_splits)
  with sp sq' keep before show ?thesis by auto
qed

lemma queueLoop_tables:
  assumes a: "\<forall>ol\<in>set ord. QueueTimestamp (leaf ol) = Some q \<and> idx ol < length ex0"
    and v: "CheckValid q" and ok: "schemaOK (tx t0)"
    and d: "distinct (map idx ord)"
    and n: "\<forall>ol\<in>set ord. ex0 ! idx ol = None"
    and fin: "queueLoop t0 ord ex0 cnt0 = (Inr (ex, cnt), t')"
  shows "p \<le> length ord \<Longrightarrow>
     LeafData (tx (snd (queueLoop t0 (take p ord) ex0 cnt0)))
       = LeafData (tx t0) @ map (\<lambda>ol. leafDataRowOf (treeID t0) (leaf ol) (UnixNano q))
           (filter (\<lambda>ol. ex ! idx ol = None) (take p ord))
     \<and> Unsequenced (tx (snd (queueLoop t0 (take p ord) ex0 cnt0)))
       = Unsequenced (tx t0) @ map (\<lambda>ol. unsequencedRowOf (treeID t0) (leaf ol) (UnixNano q))
           (filter (\<lambda>ol. ex ! idx ol = None) (take p ord))"
proof (induction p)
  case 0
  then show ?case by simp
next
  case (Suc p)
  then have p: "p < length ord" by simp
  let ?ol = "ord ! p"
  from queueLoop_step [OF a v ok d p fin] obtain exp cntp tp exq cntq tq where
    sp: "queueLoop t0 (take p ord) ex0 cnt0 = (Inr (exp, cntp), tp)"
    and sq: "queueLoop t0 (take (Suc p) ord) ex0 cnt0 = (Inr (exq, cntq), tq)"
    and c: "(if LeafIdentityHash (leaf ?ol)
              \<in> set (leafHashes (tx t0) (treeID t0))
                \<union> (\<lambda>ol. LeafIdentityHash (leaf ol)) ` set (take p ord)
          then ex ! idx ?ol = Some (leaf ?ol) \<and> tx tq = tx tp
          else ex ! idx ?ol = ex0 ! idx ?ol
             \<and> tx tq = (tx tp)\<lparr>LeafData := LeafData (tx tp)
                                    @ [leafDataRowOf (treeID t0) (leaf ?ol) (UnixNano q)],
                                  Unsequenced := Unsequenced (tx tp)
                                    @ [unsequencedRowOf (treeID t0) (leaf ?ol) (UnixNano q)]\<rparr>)"
    by blast
  from Suc.IH p sp
  have ih1: "LeafData (tx tp) = LeafData (tx t0) @ map (\<lambda>ol. leafDataRowOf (treeID t0) (leaf ol) (UnixNano q))
           (filter (\<lambda>ol. ex ! idx ol = None) (take p ord))"
    and ih2: "Unsequenced (tx tp) = Unsequenced (tx t0) @ map (\<lambda>ol. unsequencedRowOf (treeID t0) (leaf ol) (UnixNano q))
           (filter (\<lambda>ol. ex ! idx ol = None) (take p ord))"
    by simp_all
  have tk: "take (Suc p) ord = take p ord @ [?ol]"
    using p by (simp add: take_Suc_conv_app_nth)
  have e: "snd (queueLoop t0 (take (Suc p) ord) ex0 cnt0) = tq"
    using sq by simp
  from n p have none: "ex0 ! idx ?ol = None" by simp
  have "LeafData (tx tq)
       = LeafData (tx t0) @ map (\<lambda>ol. leafDataRowOf (treeID t0) (leaf ol) (UnixNano q))
           (filter (\<lambda>ol. ex ! idx ol = None) (take (Suc p) ord))
     \<and> Unsequenced (tx tq)
       = Unsequenced (tx t0) @ map (\<lambda>ol. unsequencedRowOf (treeID t0) (leaf ol) (UnixNano q))
           (filter (\<lambda>ol. ex ! idx ol = None) (take (Suc p) ord))"
    using c ih1 ih2 none by (simp add: tk split: if_splits)
  then show ?case unfolding e .
qed

text \<open>Reading back the existing leaves: the hashes to look up are collated without
  repeats, the statement yields one row for each stored leaf asked for, and each
  remembered leaf finds the stored leaf of its hash.\<close>

lemma collateHashes_distinct: "distinct acc \<Longrightarrow> distinct (collateHashes es acc)"
  by (induction es acc rule: collateHashes.induct) auto

lemma set_collateHashes:
  "set (collateHashes es acc) = set acc \<union> {LeafIdentityHash e |e. Some e \<in> set es}"
  by (induction es acc rule: collateHashes.induct) auto

lemma filter_unique_key:
  "distinct (map f xs) \<Longrightarrow> (\<And>x. P x \<longleftrightarrow> f x = k) \<Longrightarrow>
   filter P xs = (case find P xs of None \<Rightarrow> [] | Some x \<Rightarrow> [x])"
proof (induction xs)
  case Nil
  then show ?case by simp
next
  case (Cons x xs)
  show ?case
  proof (cases "P x")
    case True
    then have "f x = k" using Cons.prems(2) by simp
    with Cons.prems(1) have "\<forall>y\<in>set xs. \<not> P y"
      using Cons.prems(2) by (auto simp: image_iff)
    then have "filter P xs = []" by (simp add: filter_empty_conv)
    with True show ?thesis by simp
  next
    case False
    with Cons show ?thesis by simp
  qed
qed

lemma concat_map_if:
  "concat (map (\<lambda>x. if Q x then [g x] else []) xs) = map g (filter Q xs)"
  by (induction xs) auto

lemma find_map_comp: "find P (map g xs) = map_option g (find (\<lambda>x. P (g x)) xs)"
  by (induction xs) auto

lemma find_filter_conj: "find P (filter Q xs) = find (\<lambda>x. Q x \<and> P x) xs"
  by (induction xs) auto

lemma selectLeavesByLeafIdentityHash_rows:
  assumes "schemaOK db"
  shows "selectLeavesByLeafIdentityHash db R tid
     = map (\<lambda>l. joinedRow l (joinedIntegrateTimestamp db l))
         (filter (\<lambda>l. ld_LeafIdentityHash l \<in> set R \<and> ld_TreeId l = tid) (LeafData db))"
proof -
  have d: "distinct (map (\<lambda>s. (sq_TreeId s, sq_LeafIdentityHash s)) (SequencedLeafData db))"
    using assms by (simp add: schemaOK_def)
  have one: "(case filter (\<lambda>s. ld_LeafIdentityHash l = sq_LeafIdentityHash s \<and> ld_TreeId l = sq_TreeId s)
                     (SequencedLeafData db) of
                [] \<Rightarrow> [joinedRow l None]
              | ss \<Rightarrow> map (\<lambda>s. joinedRow l (Some (sq_IntegrateTimestampNanos s))) ss)
        = [joinedRow l (joinedIntegrateTimestamp db l)]" for l
  proof -
    have "filter (\<lambda>s. ld_LeafIdentityHash l = sq_LeafIdentityHash s \<and> ld_TreeId l = sq_TreeId s)
            (SequencedLeafData db)
        = (case find (\<lambda>s. ld_LeafIdentityHash l = sq_LeafIdentityHash s \<and> ld_TreeId l = sq_TreeId s)
                  (SequencedLeafData db) of None \<Rightarrow> [] | Some x \<Rightarrow> [x])"
      by (rule filter_unique_key [OF d, where k = "(ld_TreeId l, ld_LeafIdentityHash l)"]) auto
    then show ?thesis
      by (simp add: joinedIntegrateTimestamp_def split: option.splits)
  qed
  show ?thesis
    unfolding selectLeavesByLeafIdentityHash_def one
    by (rule concat_map_if)
qed

lemma scanLeaves_all:
  "\<forall>r\<in>set rows. length (lr_MerkleLeafHash r) = hs \<Longrightarrow>
   scanLeaves hs rows ret
     = Inr (ret @ map (\<lambda>r. \<lparr>MerkleLeafHash = lr_MerkleLeafHash r,
                       LeafValue = lr_LeafValue r,
                       ExtraData = lr_ExtraData r,
                       LeafIndex = lr_SequenceNumber r,
                       LeafIdentityHash = lr_LeafIdentityHash r,
                       QueueTimestamp = Some (timeUnix0 (lr_QueueTimestampNanos r)),
                       IntegrateTimestamp = map_option timeUnix0 (lr_IntegrateTimestampNanos r)\<rparr>) rows)"
  by (induction rows arbitrary: ret) (auto simp: CheckValid_timeUnix0 split: option.splits)

lemma getLeafDataByIdentityHash_rows:
  assumes "schemaOK (tx t)" "hashSizeBytes t = 32"
  shows "getLeafDataByIdentityHash t R
     = Inr (map (\<lambda>l. storedLeaf l (joinedIntegrateTimestamp (tx t) l))
              (filter (\<lambda>l. ld_LeafIdentityHash l \<in> set R \<and> ld_TreeId l = treeID t) (LeafData (tx t))))"
  unfolding getLeafDataByIdentityHash_def selectLeavesByLeafIdentityHash_rows [OF assms(1)]
  by (subst scanLeaves_all) (simp_all add: assms(2) dummyMerkleLeafHash_def comp_def)

lemma count_existing:
  assumes d: "distinct (map (\<lambda>l. (ld_TreeId l, ld_LeafIdentityHash l)) LD)"
    and r: "distinct R"
    and s: "set R \<subseteq> ld_LeafIdentityHash ` {l \<in> set LD. ld_TreeId l = tid}"
  shows "length (filter (\<lambda>l. ld_LeafIdentityHash l \<in> set R \<and> ld_TreeId l = tid) LD) = length R"
proof -
  let ?F = "filter (\<lambda>l. ld_LeafIdentityHash l \<in> set R \<and> ld_TreeId l = tid) LD"
  have "distinct (map (\<lambda>l. (ld_TreeId l, ld_LeafIdentityHash l)) ?F)"
    using d by (rule distinct_map_filter)
  moreover have "map (\<lambda>l. (ld_TreeId l, ld_LeafIdentityHash l)) ?F
      = map (Pair tid) (map ld_LeafIdentityHash ?F)"
    by (induction LD) auto
  ultimately have "distinct (map (Pair tid) (map ld_LeafIdentityHash ?F))"
    by simp
  then have dh: "distinct (map ld_LeafIdentityHash ?F)"
    by (simp only: distinct_map [of "Pair tid"])
  have "set (map ld_LeafIdentityHash ?F) = set R"
    using s by auto
  then have "card (set (map ld_LeafIdentityHash ?F)) = card (set R)" by simp
  then have "length (map ld_LeafIdentityHash ?F) = length R"
    using dh r by (simp only: distinct_card)
  then show ?thesis by simp
qed

lemma find_existing:
  assumes "h \<in> set R"
  shows "find (\<lambda>r. LeafIdentityHash r = h)
           (map (\<lambda>l. storedLeaf l (joinedIntegrateTimestamp db l))
              (filter (\<lambda>l. ld_LeafIdentityHash l \<in> set R \<and> ld_TreeId l = tid) (LeafData db)))
         = canonicalLeaf db tid h"
proof -
  have "find (\<lambda>l. (ld_LeafIdentityHash l \<in> set R \<and> ld_TreeId l = tid) \<and> ld_LeafIdentityHash l = h)
          (LeafData db)
      = find (\<lambda>l. ld_TreeId l = tid \<and> ld_LeafIdentityHash l = h) (LeafData db)"
    by (rule find_cong) (use assms in auto)
  then show ?thesis
    by (simp only: find_map_comp find_filter_conj canonicalLeaf_def LogLeaf.simps)
qed

lemma replaceExisting_total:
  assumes "\<forall>x. Some x \<in> set ex
             \<longrightarrow> find (\<lambda>r. LeafIdentityHash r = LeafIdentityHash x) results \<noteq> None"
  shows "replaceExisting results ex
      = Inr (map (\<lambda>e. case e of None \<Rightarrow> None
                   | Some x \<Rightarrow> find (\<lambda>r. LeafIdentityHash r = LeafIdentityHash x) results) ex)"
  using assms
proof (induction results ex rule: replaceExisting.induct)
  case (1 results)
  show ?case by simp
next
  case (2 results es)
  then show ?case by simp
next
  case (3 results requested es)
  from 3(2) obtain r where
    r: "find (\<lambda>result. LeafIdentityHash result = LeafIdentityHash requested) results = Some r"
    by fastforce
  from 3(1) [OF r] 3(2) have "replaceExisting results es
      = Inr (map (\<lambda>e. case e of None \<Rightarrow> None
                   | Some x \<Rightarrow> find (\<lambda>r. LeafIdentityHash r = LeafIdentityHash x) results) es)"
    by simp
  with r show ?case by simp
qed

lemma canonicalLeaf_None_iff:
  "canonicalLeaf db tid h = None \<longleftrightarrow> h \<notin> set (leafHashes db tid)"
  by (auto simp: canonicalLeaf_def in_leafHashes find_None_iff)

lemma canonicalLeaf_hash:
  "canonicalLeaf db tid h = Some x \<Longrightarrow> LeafIdentityHash x = h"
  by (auto simp: canonicalLeaf_def find_Some_iff)

lemma find_append_Some:
  "find P xs = Some x \<Longrightarrow> find P (xs @ ys) = Some x"
  by (induction xs) (auto split: if_splits)

lemma canonicalLeaf_append:
  assumes "h \<in> set (leafHashes db tid)"
    and "LeafData db' = LeafData db @ new" "SequencedLeafData db' = SequencedLeafData db"
  shows "canonicalLeaf db' tid h = canonicalLeaf db tid h"
proof -
  from assms(1) obtain l where
    "find (\<lambda>l. ld_TreeId l = tid \<and> ld_LeafIdentityHash l = h) (LeafData db) = Some l"
    by (cases "find (\<lambda>l. ld_TreeId l = tid \<and> ld_LeafIdentityHash l = h) (LeafData db)")
       (auto simp: in_leafHashes find_None_iff)
  then show ?thesis
    using assms(2,3)
    by (simp add: canonicalLeaf_def find_append_Some joinedIntegrateTimestamp_def)
qed

text \<open>The transaction-level \<open>QueueLeaves\<close> on a valid batch: it succeeds, and the slot
  of each leaf holds the stored leaf of its hash exactly if the hash was stored
  already or came earlier in the insert order.\<close>

lemma logTreeTX_QueueLeaves_result:
  fixes leaves ts sortSort t
  defines "ls \<equiv> map (\<lambda>l. l\<lparr>QueueTimestamp := Some ts\<rparr>) leaves"
  defines "ord \<equiv> sortLeavesForInsert sortSort ls"
  defines "dup \<equiv> \<lambda>p. LeafIdentityHash (leaf (ord ! p))
              \<in> set (leafHashes (tx t) (treeID t))
                \<union> (\<lambda>ol. LeafIdentityHash (leaf ol)) ` set (take p ord)"
  assumes ok: "schemaOK (tx t)" and hs: "hashSizeBytes t = 32"
    and len: "\<forall>l\<in>set leaves. length (LeafIdentityHash l) = 32"
    and v: "CheckValid ts"
    and c: "sortContract sortSort (withPositions ls)"
  shows "\<exists>existing t'.
      logTreeTX_QueueLeaves sortSort t leaves ts = (Inr existing, t', ls)
      \<and> length existing = length leaves
      \<and> (\<forall>p<length ord.
            existing ! idx (ord ! p)
              = (if dup p then canonicalLeaf (tx t') (treeID t) (LeafIdentityHash (leaf (ord ! p)))
                 else None)
            \<and> (dup p \<longrightarrow> canonicalLeaf (tx t') (treeID t) (LeafIdentityHash (leaf (ord ! p))) \<noteq> None))
      \<and> LeafData (tx t')
          = LeafData (tx t) @ map (\<lambda>ol. leafDataRowOf (treeID t) (leaf ol) (UnixNano ts))
              (filter (\<lambda>ol. existing ! idx ol = None) ord)
      \<and> Unsequenced (tx t')
          = Unsequenced (tx t) @ map (\<lambda>ol. unsequencedRowOf (treeID t) (leaf ol) (UnixNano ts))
              (filter (\<lambda>ol. existing ! idx ol = None) ord)
      \<and> SequencedLeafData (tx t') = SequencedLeafData (tx t)"
proof -
  let ?h = "\<lambda>ol. LeafIdentityHash (leaf ol)"
  let ?n = "length leaves"
  let ?ex0 = "replicate (length ls) (None :: LogLeaf option)"
  have lls: "length ls = ?n" by (simp add: ls_def)
  have st: "stampLeaves (hashSizeBytes t) ts leaves = (None, ls)"
    unfolding ls_def hs by (rule stampLeaves_ok [OF len v])
  note sp = sorted_positions [OF c, folded ord_def]
  have a: "\<forall>ol\<in>set ord. QueueTimestamp (leaf ol) = Some ts \<and> idx ol < length ?ex0"
    using sp(4) lls by (auto simp: ls_def)
  have n0: "\<forall>ol\<in>set ord. ?ex0 ! idx ol = None"
    using a by simp
  from queueLoop_total [OF a v ok, of 0] obtain ex cnt t1 where
    loop: "queueLoop t ord ?ex0 0 = (Inr (ex, cnt), t1)" and lex: "length ex = ?n"
    and ok1: "schemaOK (tx t1)" and tid1: "treeID t1 = treeID t" and hs1: "hashSizeBytes t1 = 32"
    and hset: "set (leafHashes (tx t1) (treeID t)) = set (leafHashes (tx t) (treeID t)) \<union> ?h ` set ord"
    and sq1: "SequencedLeafData (tx t1) = SequencedLeafData (tx t)"
    using lls hs by auto
  have slot: "ex ! idx (ord ! p) = (if dup p then Some (leaf (ord ! p)) else None)"
    if "p < length ord" for p
  proof -
    from queueLoop_step [OF a v ok sp(1) that loop] n0 that
    show ?thesis unfolding dup_def by (auto split: if_splits)
  qed
  from queueLoop_tables [OF a v ok sp(1) n0 loop, of "length ord"] loop
  have tabs: "LeafData (tx t1)
          = LeafData (tx t) @ map (\<lambda>ol. leafDataRowOf (treeID t) (leaf ol) (UnixNano ts))
              (filter (\<lambda>ol. ex ! idx ol = None) ord)"
    "Unsequenced (tx t1)
          = Unsequenced (tx t) @ map (\<lambda>ol. unsequencedRowOf (treeID t) (leaf ol) (UnixNano ts))
              (filter (\<lambda>ol. ex ! idx ol = None) ord)"
    by simp_all
  have some_in: "LeafIdentityHash x \<in> set (leafHashes (tx t1) (treeID t))" if "Some x \<in> set ex" for x
  proof -
    from that obtain i where i: "i < length ex" "ex ! i = Some x"
      by (auto simp: in_set_conv_nth)
    with lex sp(2) lls have "i \<in> set (map idx ord)" by simp
    then obtain p where p: "p < length ord" "idx (ord ! p) = i"
      by (auto simp: in_set_conv_nth)
    from slot [OF p(1)] i(2) p(2) have "x = leaf (ord ! p)"
      by (auto split: if_splits)
    with p(1) show ?thesis unfolding hset by auto
  qed
  let ?canon = "\<lambda>e. case e of None \<Rightarrow> None
                    | Some x \<Rightarrow> canonicalLeaf (tx t1) (treeID t) (LeafIdentityHash x)"
  let ?R = "collateHashes ex []"
  have rs: "set ?R = {LeafIdentityHash e |e. Some e \<in> set ex}" and rd: "distinct ?R"
    by (simp_all add: set_collateHashes collateHashes_distinct)
  let ?results = "map (\<lambda>l. storedLeaf l (joinedIntegrateTimestamp (tx t1) l))
              (filter (\<lambda>l. ld_LeafIdentityHash l \<in> set ?R \<and> ld_TreeId l = treeID t1) (LeafData (tx t1)))"
  have get: "getLeafDataByIdentityHash t1 ?R = Inr ?results"
    by (rule getLeafDataByIdentityHash_rows [OF ok1 hs1])
  have cntR: "length ?results = length ?R"
  proof -
    have "set ?R \<subseteq> ld_LeafIdentityHash ` {l \<in> set (LeafData (tx t1)). ld_TreeId l = treeID t1}"
    proof
      fix h assume "h \<in> set ?R"
      with rs obtain e where e: "h = LeafIdentityHash e" "Some e \<in> set ex" by auto
      from some_in [OF e(2)] obtain l where
        "l \<in> set (LeafData (tx t1))" "ld_TreeId l = treeID t" "ld_LeafIdentityHash l = h"
        unfolding e(1) in_leafHashes by auto
      then show "h \<in> ld_LeafIdentityHash ` {l \<in> set (LeafData (tx t1)). ld_TreeId l = treeID t1}"
        using tid1 by force
    qed
    from count_existing [OF _ rd this] ok1 show ?thesis
      by (simp add: schemaOK_def)
  qed
  have fnd: "find (\<lambda>r. LeafIdentityHash r = LeafIdentityHash x) ?results
      = canonicalLeaf (tx t1) (treeID t) (LeafIdentityHash x)" if "Some x \<in> set ex" for x
  proof -
    from that rs have "LeafIdentityHash x \<in> set ?R" by auto
    from find_existing [OF this, of "tx t1" "treeID t1"] tid1 show ?thesis by simp
  qed
  have rep: "replaceExisting ?results ex = Inr (map ?canon ex)"
  proof -
    have "\<forall>x. Some x \<in> set ex \<longrightarrow> find (\<lambda>r. LeafIdentityHash r = LeafIdentityHash x) ?results \<noteq> None"
      using fnd some_in by (simp add: canonicalLeaf_None_iff)
    from replaceExisting_total [OF this]
    have "replaceExisting ?results ex
        = Inr (map (\<lambda>e. case e of None \<Rightarrow> None
                     | Some x \<Rightarrow> find (\<lambda>r. LeafIdentityHash r = LeafIdentityHash x) ?results) ex)" .
    moreover have "map (\<lambda>e. case e of None \<Rightarrow> None
                     | Some x \<Rightarrow> find (\<lambda>r. LeafIdentityHash r = LeafIdentityHash x) ?results) ex
        = map ?canon ex"
      by (rule map_cong [OF refl]) (auto simp: fnd split: option.splits)
    ultimately show ?thesis by simp
  qed
  have zero: "map ?canon ex = ex" if "cnt = 0"
  proof -
    from queueLoop_frame [OF loop] that have "ex = ?ex0" by simp
    then have "\<forall>e\<in>set ex. e = None" by (metis in_set_replicate)
    then show ?thesis by (intro map_idI) (auto split: option.splits)
  qed
  have run: "logTreeTX_QueueLeaves sortSort t leaves ts = (Inr (map ?canon ex), t1, ls)"
  proof (cases "cnt = 0")
    case True
    with zero show ?thesis
      by (simp add: logTreeTX_QueueLeaves_def st loop ord_def [symmetric])
  next
    case False
    then show ?thesis
      by (simp add: logTreeTX_QueueLeaves_def st loop ord_def [symmetric] Let_def get cntR [unfolded length_map] rep)
  qed
  have none_iff: "map ?canon ex ! idx ol = None \<longleftrightarrow> ex ! idx ol = None" if "ol \<in> set ord" for ol
  proof -
    from that a lls lex have i: "idx ol < length ex" by simp
    show ?thesis
    proof (cases "ex ! idx ol")
      case None
      with i show ?thesis by simp
    next
      case (Some x)
      with i have "Some x \<in> set ex" by (metis nth_mem)
      from some_in [OF this] Some i show ?thesis
        by (simp add: canonicalLeaf_None_iff)
    qed
  qed
  then have filt: "filter (\<lambda>ol. map ?canon ex ! idx ol = None) ord = filter (\<lambda>ol. ex ! idx ol = None) ord"
    by (auto intro: filter_cong)
  have slots: "map ?canon ex ! idx (ord ! p)
              = (if dup p then canonicalLeaf (tx t1) (treeID t) (?h (ord ! p)) else None)
            \<and> (dup p \<longrightarrow> canonicalLeaf (tx t1) (treeID t) (?h (ord ! p)) \<noteq> None)"
    if p: "p < length ord" for p
  proof -
    from p a lls lex have i: "idx (ord ! p) < length ex" by simp
    have "?h (ord ! p) \<in> set (leafHashes (tx t1) (treeID t))"
      using p unfolding hset by simp
    then have "canonicalLeaf (tx t1) (treeID t) (?h (ord ! p)) \<noteq> None"
      by (simp add: canonicalLeaf_None_iff)
    with slot [OF p] i show ?thesis by simp
  qed
  show ?thesis
    apply (rule exI [of _ "map ?canon ex"], rule exI [of _ t1])
    using run lex slots tabs sq1 by (simp add: filt)
qed

text \<open>A transaction that \<open>beginInternal\<close> opens without an error works on the tables of
  the database, for the tree and with the hash size it was given.\<close>

lemma beginInternal_Some:
  assumes "beginInternal hasherSize MarshalBinary UnmarshalBinary db tree = (Some t, None)"
  shows "tx t = db \<and> treeID t = TreeId tree \<and> hashSizeBytes t = hasherSize"
  using assms
  by (auto simp: beginInternal_def Let_def split: sum.splits if_splits prod.splits)

text \<open>
  Claim C2. \<open>QueueLeaves\<close> of the storage, on a tree whose transaction opens, whose
  tables keep the unique keys of the schema and whose hashes have the 32 bytes of the
  placeholder Merkle hash, for every batch of leaves with identity hashes of that size
  and every valid queue timestamp: a leaf whose insert violates the unique key does not
  fail the call. The call returns one result for each input position. Taking the leaves
  in the order in which they are inserted, a position whose identity hash is held by the
  tree at that moment (it was stored before the call, or an earlier leaf of the batch
  has the same hash) receives the stored row of that hash with the status
  \<open>ALREADY_EXISTS\<close>, and every other position receives the caller's leaf with the queue
  timestamp set, and no status. The rows stored before the call are returned as they
  were, and the tables of the leaves and of the queue grow by exactly the rows of the
  positions without a status. The hashes to look up are those of the remembered
  duplicates, each taken once, whatever the batch repeats. The sort of the library is a parameter, assumed to return
  a sorted permutation of the batch it is given.
\<close>

theorem QueueLeaves_duplicates_already_exist:
  fixes leaves queueTimestamp sortSort db tree
  defines "ls \<equiv> map (\<lambda>l. l\<lparr>QueueTimestamp := Some queueTimestamp\<rparr>) leaves"
  defines "ord \<equiv> sortLeavesForInsert sortSort ls"
  defines "dup \<equiv> \<lambda>p. LeafIdentityHash (leaf (ord ! p))
              \<in> set (leafHashes db (TreeId tree))
                \<union> (\<lambda>ol. LeafIdentityHash (leaf ol)) ` set (take p ord)"
  assumes bg: "beginInternal 32 MarshalBinary UnmarshalBinary db tree = (Some t, None)"
    and ok: "schemaOK db"
    and len: "\<forall>l\<in>set leaves. length (LeafIdentityHash l) = 32"
    and v: "CheckValid queueTimestamp"
    and c: "sortContract sortSort (withPositions ls)"
  shows "\<exists>ret db'.
      mySQLLogStorage_QueueLeaves 32 MarshalBinary UnmarshalBinary sortSort db tree leaves queueTimestamp
        = (Inr ret, db')
      \<and> length ret = length leaves
      \<and> set (map idx ord) = {..<length leaves}
      \<and> (\<forall>p<length ord.
            leaf (ord ! p) = ls ! idx (ord ! p)
            \<and> (if dup p
               then canonicalLeaf db' (TreeId tree) (LeafIdentityHash (leaf (ord ! p))) \<noteq> None
                    \<and> ret ! idx (ord ! p)
                        = \<lparr>Leaf = canonicalLeaf db' (TreeId tree) (LeafIdentityHash (leaf (ord ! p))),
                           Status = Some (AlreadyExists, ''leaf already exists: %v'')\<rparr>
               else ret ! idx (ord ! p) = \<lparr>Leaf = Some (ls ! idx (ord ! p)), Status = None\<rparr>))
      \<and> (\<forall>h\<in>set (leafHashes db (TreeId tree)).
            canonicalLeaf db' (TreeId tree) h = canonicalLeaf db (TreeId tree) h)
      \<and> LeafData db'
          = LeafData db @ map (\<lambda>ol. leafDataRowOf (TreeId tree) (leaf ol) (UnixNano queueTimestamp))
              (filter (\<lambda>ol. Status (ret ! idx ol) = None) ord)
      \<and> Unsequenced db'
          = Unsequenced db @ map (\<lambda>ol. unsequencedRowOf (TreeId tree) (leaf ol) (UnixNano queueTimestamp))
              (filter (\<lambda>ol. Status (ret ! idx ol) = None) ord)
      \<and> (\<forall>es. distinct (collateHashes es [])
                \<and> set (collateHashes es []) = {LeafIdentityHash e |e. Some e \<in> set es})"
proof -
  from beginInternal_Some [OF bg]
  have t: "tx t = db" "treeID t = TreeId tree" "hashSizeBytes t = 32" by simp_all
  have lls: "length ls = length leaves" by (simp add: ls_def)
  note sp = sorted_positions [OF c, folded ord_def]
  from logTreeTX_QueueLeaves_result [of t leaves queueTimestamp sortSort, unfolded t,
      OF ok refl len v c [unfolded ls_def], folded ls_def, folded ord_def]
  obtain existing t' where
    run: "logTreeTX_QueueLeaves sortSort t leaves queueTimestamp = (Inr existing, t', ls)"
    and lex: "length existing = length leaves"
    and slots0: "\<forall>p<length ord.
          existing ! idx (ord ! p) =
          (if LeafIdentityHash (leaf (ord ! p))
              \<in> set (leafHashes db (TreeId tree)) \<union>
                (\<lambda>ol. LeafIdentityHash (leaf ol)) ` set (take p ord)
           then canonicalLeaf (tx t') (TreeId tree) (LeafIdentityHash (leaf (ord ! p)))
           else None) \<and>
          (LeafIdentityHash (leaf (ord ! p))
           \<in> set (leafHashes db (TreeId tree)) \<union>
             (\<lambda>ol. LeafIdentityHash (leaf ol)) ` set (take p ord) \<longrightarrow>
           canonicalLeaf (tx t') (TreeId tree) (LeafIdentityHash (leaf (ord ! p))) \<noteq> None)"
    and ld: "LeafData (tx t')
          = LeafData db @ map (\<lambda>ol. leafDataRowOf (TreeId tree) (leaf ol) (UnixNano queueTimestamp))
              (filter (\<lambda>ol. existing ! idx ol = None) ord)"
    and us: "Unsequenced (tx t')
          = Unsequenced db @ map (\<lambda>ol. unsequencedRowOf (TreeId tree) (leaf ol) (UnixNano queueTimestamp))
              (filter (\<lambda>ol. existing ! idx ol = None) ord)"
    and sq: "SequencedLeafData (tx t') = SequencedLeafData db"
    by (elim exE conjE) (rule that, assumption+)
  have slots: "\<forall>p<length ord.
            existing ! idx (ord ! p)
              = (if dup p then canonicalLeaf (tx t') (TreeId tree) (LeafIdentityHash (leaf (ord ! p)))
                 else None)
            \<and> (dup p \<longrightarrow> canonicalLeaf (tx t') (TreeId tree) (LeafIdentityHash (leaf (ord ! p))) \<noteq> None)"
    unfolding dup_def by (rule slots0)
  let ?f = "\<lambda>(e, l). case e of
                Some x \<Rightarrow> \<lparr>Leaf = Some x, Status = Some (AlreadyExists, ''leaf already exists: %v'')\<rparr>
              | None \<Rightarrow> \<lparr>Leaf = Some l, Status = None\<rparr>"
  let ?ret = "map ?f (zip existing ls)"
  have res: "mySQLLogStorage_QueueLeaves 32 MarshalBinary UnmarshalBinary sortSort db tree leaves queueTimestamp
        = (Inr ?ret, tx t')"
    by (simp add: mySQLLogStorage_QueueLeaves_def bg run)
  have nth: "?ret ! i = (case existing ! i of
                Some x \<Rightarrow> \<lparr>Leaf = Some x, Status = Some (AlreadyExists, ''leaf already exists: %v'')\<rparr>
              | None \<Rightarrow> \<lparr>Leaf = Some (ls ! i), Status = None\<rparr>)" if "i < length leaves" for i
    using that lex lls by simp
  have inr: "idx ol < length leaves \<and> leaf ol = ls ! idx ol" if "ol \<in> set ord" for ol
    using sp(4) that lls by auto
  have stat: "Status (?ret ! idx ol) = None \<longleftrightarrow> existing ! idx ol = None" if "ol \<in> set ord" for ol
    using nth [of "idx ol"] inr [OF that] by (auto split: option.splits)
  have filt: "filter (\<lambda>ol. Status (?ret ! idx ol) = None) ord = filter (\<lambda>ol. existing ! idx ol = None) ord"
    by (rule filter_cong [OF refl]) (rule stat)
  have per: "leaf (ord ! p) = ls ! idx (ord ! p)
            \<and> (if dup p
               then canonicalLeaf (tx t') (TreeId tree) (LeafIdentityHash (leaf (ord ! p))) \<noteq> None
                    \<and> ?ret ! idx (ord ! p)
                        = \<lparr>Leaf = canonicalLeaf (tx t') (TreeId tree) (LeafIdentityHash (leaf (ord ! p))),
                           Status = Some (AlreadyExists, ''leaf already exists: %v'')\<rparr>
               else ?ret ! idx (ord ! p) = \<lparr>Leaf = Some (ls ! idx (ord ! p)), Status = None\<rparr>)"
    if p: "p < length ord" for p
  proof -
    from p have m: "ord ! p \<in> set ord" by simp
    from slots p have s: "existing ! idx (ord ! p)
              = (if dup p then canonicalLeaf (tx t') (TreeId tree) (LeafIdentityHash (leaf (ord ! p)))
                 else None)"
      and d: "dup p \<longrightarrow> canonicalLeaf (tx t') (TreeId tree) (LeafIdentityHash (leaf (ord ! p))) \<noteq> None"
      by simp_all
    show ?thesis
    proof (cases "dup p")
      case True
      with d obtain x where x: "canonicalLeaf (tx t') (TreeId tree) (LeafIdentityHash (leaf (ord ! p))) = Some x"
        by auto
      with s True have "existing ! idx (ord ! p) = Some x" by simp
      with nth [of "idx (ord ! p)"] inr [OF m] x True show ?thesis by simp
    next
      case False
      with s have "existing ! idx (ord ! p) = None" by simp
      with nth [of "idx (ord ! p)"] inr [OF m] False show ?thesis by simp
    qed
  qed
  have canon: "\<forall>h\<in>set (leafHashes db (TreeId tree)).
            canonicalLeaf (tx t') (TreeId tree) h = canonicalLeaf db (TreeId tree) h"
    using canonicalLeaf_append [OF _ ld sq] by blast
  have cover: "set (map idx ord) = {..<length leaves}"
    using sp(2) lls by simp
  show ?thesis
    apply (rule exI [of _ ?ret], rule exI [of _ "tx t'"])
    apply (intro conjI)
    subgoal by (rule res)
    subgoal using lex lls by simp
    subgoal by (rule cover)
    subgoal using per by blast
    subgoal by (rule canon)
    subgoal unfolding filt by (rule ld)
    subgoal unfolding filt by (rule us)
    subgoal by (simp add: set_collateHashes collateHashes_distinct)
    done
qed

theorem QueueLeaves_duplicates_already_exist_witness:
  "beginInternal 32 toyMarshal toyUnmarshal queueDb queueTree = (Some queueTx, None)
   \<and> schemaOK queueDb
   \<and> map (\<lambda>l. length (LeafIdentityHash l)) queueBatch = [32, 32, 32, 32]
   \<and> CheckValid 50
   \<and> sortContract insertionSort
        (withPositions (map (\<lambda>l. l\<lparr>QueueTimestamp := Some 50\<rparr>) queueBatch))
   \<and> map idx (sortLeavesForInsert insertionSort (map (\<lambda>l. l\<lparr>QueueTimestamp := Some 50\<rparr>) queueBatch))
       = [3, 1, 0, 2]
   \<and> map (\<lambda>q. (map_option LeafValue (Leaf q), map_option fst (Status q)))
        (projr (fst (mySQLLogStorage_QueueLeaves 32 toyMarshal toyUnmarshal insertionSort
                       queueDb queueTree queueBatch 50)))
       = [(Some [30], None), (Some [20], Some AlreadyExists),
          (Some [30], Some AlreadyExists), (Some [10], None)]
   \<and> map ld_LeafValue
        (LeafData (snd (mySQLLogStorage_QueueLeaves 32 toyMarshal toyUnmarshal insertionSort
                          queueDb queueTree queueBatch 50)))
       = [[20], [10], [30]]"
proof -
  let ?Q = "mySQLLogStorage_QueueLeaves 32 toyMarshal toyUnmarshal insertionSort
              queueDb queueTree queueBatch 50"
  let ?ls = "map (\<lambda>l. l\<lparr>QueueTimestamp := Some 50\<rparr>) queueBatch"
  let ?ord = "sortLeavesForInsert insertionSort ?ls"
  have bg: "beginInternal 32 toyMarshal toyUnmarshal queueDb queueTree = (Some queueTx, None)"
    by code_simp
  have ok: "schemaOK queueDb"
    by code_simp
  have len: "\<forall>l\<in>set queueBatch. length (LeafIdentityHash l) = 32"
    by code_simp
  have v: "CheckValid 50"
    by (simp add: CheckValid_def)
  have c: "sortContract insertionSort (withPositions ?ls)"
    by code_simp
  have i: "map idx ?ord = [3, 1, 0, 2]"
    by code_simp
  have r: "map (\<lambda>q. (map_option LeafValue (Leaf q), map_option fst (Status q))) (projr (fst ?Q))
       = [(Some [30], None), (Some [20], Some AlreadyExists),
          (Some [30], Some AlreadyExists), (Some [10], None)]"
    by code_simp
  from QueueLeaves_duplicates_already_exist [OF bg ok len v c] obtain ret db' where
    run: "?Q = (Inr ret, db')"
    and l: "LeafData db'
          = LeafData queueDb @ map (\<lambda>ol. leafDataRowOf (TreeId queueTree) (leaf ol) (UnixNano 50))
              (filter (\<lambda>ol. Status (ret ! idx ol) = None) ?ord)"
    by blast
  from run have ret: "ret = projr (fst ?Q)" and db': "db' = snd ?Q" by simp_all
  have "map ld_LeafValue (LeafData queueDb @ map (\<lambda>ol. leafDataRowOf (TreeId queueTree) (leaf ol) (UnixNano 50))
              (filter (\<lambda>ol. Status (projr (fst ?Q) ! idx ol) = None) ?ord)) = [[20], [10], [30]]"
    by code_simp
  with l have lv: "map ld_LeafValue (LeafData (snd ?Q)) = [[20], [10], [30]]"
    unfolding ret db' by simp
  have len': "map (\<lambda>l. length (LeafIdentityHash l)) queueBatch = [32, 32, 32, 32]"
    by code_simp
  from bg ok len' v c i r lv show ?thesis by blast
qed

section \<open>Properties of the insert order\<close>

text \<open>The two calls on a valid batch, turn by turn: each succeeds, and the turn of the
  leaf at place \<open>p\<close> of the sorted slice starts from the tables that the leaves before
  it have left, sends the statements for that leaf, and writes the result of that leaf
  at the position the leaf had in the batch.\<close>

lemma logTreeTX_QueueLeaves_in_order:
  fixes leaves ts sortSort t
  defines "ls \<equiv> map (\<lambda>l. l\<lparr>QueueTimestamp := Some ts\<rparr>) leaves"
  defines "ord \<equiv> sortLeavesForInsert sortSort ls"
  assumes ok: "schemaOK (tx t)" and hs: "hashSizeBytes t = 32"
    and len: "\<forall>l\<in>set leaves. length (LeafIdentityHash l) = 32"
    and v: "CheckValid ts"
    and c: "sortContract sortSort (withPositions ls)"
  shows "\<exists>existing t'.
      logTreeTX_QueueLeaves sortSort t leaves ts = (Inr existing, t', ls)
      \<and> length existing = length leaves
      \<and> leafInserts t' = leafInserts t @ map (\<lambda>ol. LeafIdentityHash (leaf ol)) ord
      \<and> (\<forall>p<length ord. \<exists>exp cntp tp exq cntq tq.
            queueLoop t (take p ord) (replicate (length ls) None) 0 = (Inr (exp, cntp), tp)
            \<and> queueLoop t (take (Suc p) ord) (replicate (length ls) None) 0 = (Inr (exq, cntq), tq)
            \<and> (if LeafIdentityHash (leaf (ord ! p)) \<in> set (leafHashes (tx tp) (treeID t))
               then tx tq = tx tp
                  \<and> canonicalLeaf (tx t') (treeID t) (LeafIdentityHash (leaf (ord ! p))) \<noteq> None
                  \<and> existing ! idx (ord ! p)
                      = canonicalLeaf (tx t') (treeID t) (LeafIdentityHash (leaf (ord ! p)))
               else tx tq = (tx tp)\<lparr>LeafData := LeafData (tx tp)
                                    @ [leafDataRowOf (treeID t) (leaf (ord ! p)) (UnixNano ts)],
                                  Unsequenced := Unsequenced (tx tp)
                                    @ [unsequencedRowOf (treeID t) (leaf (ord ! p)) (UnixNano ts)]\<rparr>
                  \<and> existing ! idx (ord ! p) = None))
      \<and> LeafData (tx t')
          = LeafData (tx t) @ map (\<lambda>ol. leafDataRowOf (treeID t) (leaf ol) (UnixNano ts))
              (filter (\<lambda>ol. existing ! idx ol = None) ord)
      \<and> Unsequenced (tx t')
          = Unsequenced (tx t) @ map (\<lambda>ol. unsequencedRowOf (treeID t) (leaf ol) (UnixNano ts))
              (filter (\<lambda>ol. existing ! idx ol = None) ord)"
proof -
  let ?h = "\<lambda>ol. LeafIdentityHash (leaf ol)"
  let ?ex0 = "replicate (length ls) (None :: LogLeaf option)"
  have lls: "length ls = length leaves" by (simp add: ls_def)
  have st: "stampLeaves (hashSizeBytes t) ts leaves = (None, ls)"
    unfolding ls_def hs by (rule stampLeaves_ok [OF len v])
  note sp = sorted_positions [OF c, folded ord_def]
  have a: "\<forall>ol\<in>set ord. QueueTimestamp (leaf ol) = Some ts \<and> idx ol < length ?ex0"
    using sp(4) lls by (auto simp: ls_def)
  from logTreeTX_QueueLeaves_result [of t leaves ts sortSort,
      OF ok hs len v c [unfolded ls_def], folded ls_def, folded ord_def]
  obtain existing t' where
    run: "logTreeTX_QueueLeaves sortSort t leaves ts = (Inr existing, t', ls)"
    and lex: "length existing = length leaves"
    and slots: "\<forall>p<length ord.
          existing ! idx (ord ! p) =
          (if LeafIdentityHash (leaf (ord ! p))
              \<in> set (leafHashes (tx t) (treeID t)) \<union>
                (\<lambda>ol. LeafIdentityHash (leaf ol)) ` set (take p ord)
           then canonicalLeaf (tx t') (treeID t) (LeafIdentityHash (leaf (ord ! p)))
           else None) \<and>
          (LeafIdentityHash (leaf (ord ! p))
           \<in> set (leafHashes (tx t) (treeID t)) \<union>
             (\<lambda>ol. LeafIdentityHash (leaf ol)) ` set (take p ord) \<longrightarrow>
           canonicalLeaf (tx t') (treeID t) (LeafIdentityHash (leaf (ord ! p))) \<noteq> None)"
    and ld: "LeafData (tx t')
          = LeafData (tx t) @ map (\<lambda>ol. leafDataRowOf (treeID t) (leaf ol) (UnixNano ts))
              (filter (\<lambda>ol. existing ! idx ol = None) ord)"
    and us: "Unsequenced (tx t')
          = Unsequenced (tx t) @ map (\<lambda>ol. unsequencedRowOf (treeID t) (leaf ol) (UnixNano ts))
              (filter (\<lambda>ol. existing ! idx ol = None) ord)"
    and sq: "SequencedLeafData (tx t') = SequencedLeafData (tx t)"
    by (elim exE conjE) (rule that, assumption+)
  from run st obtain ex cnt where
    loop: "queueLoop t ord ?ex0 0 = (Inr (ex, cnt), t')"
    by (auto simp: logTreeTX_QueueLeaves_def Let_def ord_def split: prod.splits sum.splits if_splits)
  note trace = queueLoop_trace [OF loop]
  have steps: "\<exists>exp cntp tp exq cntq tq.
            queueLoop t (take p ord) ?ex0 0 = (Inr (exp, cntp), tp)
            \<and> queueLoop t (take (Suc p) ord) ?ex0 0 = (Inr (exq, cntq), tq)
            \<and> (if ?h (ord ! p) \<in> set (leafHashes (tx tp) (treeID t))
               then tx tq = tx tp
                  \<and> canonicalLeaf (tx t') (treeID t) (?h (ord ! p)) \<noteq> None
                  \<and> existing ! idx (ord ! p) = canonicalLeaf (tx t') (treeID t) (?h (ord ! p))
               else tx tq = (tx tp)\<lparr>LeafData := LeafData (tx tp)
                                    @ [leafDataRowOf (treeID t) (leaf (ord ! p)) (UnixNano ts)],
                                  Unsequenced := Unsequenced (tx tp)
                                    @ [unsequencedRowOf (treeID t) (leaf (ord ! p)) (UnixNano ts)]\<rparr>
                  \<and> existing ! idx (ord ! p) = None)"
    if p: "p < length ord" for p
  proof -
    from queueLoop_step [OF a v ok sp(1) p loop] obtain exp cntp tp exq cntq tq where
      rp: "queueLoop t (take p ord) ?ex0 0 = (Inr (exp, cntp), tp)"
      and rq: "queueLoop t (take (Suc p) ord) ?ex0 0 = (Inr (exq, cntq), tq)"
      and cs: "(if ?h (ord ! p) \<in> set (leafHashes (tx t) (treeID t)) \<union> ?h ` set (take p ord)
          then ex ! idx (ord ! p) = Some (leaf (ord ! p)) \<and> tx tq = tx tp
          else ex ! idx (ord ! p) = ?ex0 ! idx (ord ! p)
             \<and> tx tq = (tx tp)\<lparr>LeafData := LeafData (tx tp)
                                    @ [leafDataRowOf (treeID t) (leaf (ord ! p)) (UnixNano ts)],
                                  Unsequenced := Unsequenced (tx tp)
                                    @ [unsequencedRowOf (treeID t) (leaf (ord ! p)) (UnixNano ts)]\<rparr>)"
      by (elim exE conjE) (rule that, assumption+)
    have sub: "\<forall>ol\<in>set (take p ord). QueueTimestamp (leaf ol) = Some ts \<and> idx ol < length ?ex0"
      using a by (meson in_set_takeD)
    from queueLoop_total [OF sub v ok, of 0] rp
    have hp: "set (leafHashes (tx tp) (treeID t))
          = set (leafHashes (tx t) (treeID t)) \<union> ?h ` set (take p ord)"
      by auto
    from slots p have s: "existing ! idx (ord ! p) =
          (if ?h (ord ! p) \<in> set (leafHashes (tx t) (treeID t)) \<union> ?h ` set (take p ord)
           then canonicalLeaf (tx t') (treeID t) (?h (ord ! p)) else None)"
      and n: "?h (ord ! p) \<in> set (leafHashes (tx t) (treeID t)) \<union> ?h ` set (take p ord) \<longrightarrow>
           canonicalLeaf (tx t') (treeID t) (?h (ord ! p)) \<noteq> None"
      by simp_all
    have "(if ?h (ord ! p) \<in> set (leafHashes (tx tp) (treeID t))
               then tx tq = tx tp
                  \<and> canonicalLeaf (tx t') (treeID t) (?h (ord ! p)) \<noteq> None
                  \<and> existing ! idx (ord ! p) = canonicalLeaf (tx t') (treeID t) (?h (ord ! p))
               else tx tq = (tx tp)\<lparr>LeafData := LeafData (tx tp)
                                    @ [leafDataRowOf (treeID t) (leaf (ord ! p)) (UnixNano ts)],
                                  Unsequenced := Unsequenced (tx tp)
                                    @ [unsequencedRowOf (treeID t) (leaf (ord ! p)) (UnixNano ts)]\<rparr>
                  \<and> existing ! idx (ord ! p) = None)"
      unfolding hp using cs s n by (simp split: if_splits)
    with rp rq show ?thesis by blast
  qed
  show ?thesis
    apply (rule exI [of _ existing], rule exI [of _ t'])
    apply (intro conjI)
    subgoal by (rule run)
    subgoal by (rule lex)
    subgoal by (rule trace)
    subgoal using steps by blast
    subgoal by (rule ld)
    subgoal by (rule us)
    done
qed

lemma logTreeTX_AddSequencedLeaves_in_order:
  fixes leaves timestamp sortSort t
  defines "ord \<equiv> sortLeavesForInsert sortSort leaves"
  assumes c: "sortContract sortSort (withPositions leaves)"
    and len: "\<forall>l\<in>set leaves. length (LeafIdentityHash l) = hashSizeBytes t"
  shows "\<exists>res t'.
      logTreeTX_AddSequencedLeaves sortSort t leaves timestamp = (Inr res, t')
      \<and> length res = length leaves
      \<and> leafInserts t' = leafInserts t @ map (\<lambda>ol. LeafIdentityHash (leaf ol)) ord
      \<and> (\<forall>p<length ord. \<exists>resp tp resq tq.
            addLoop (t\<lparr>savepoint := Some (tx t)\<rparr>) timestamp (take p ord)
                (replicate (length leaves) None) = (Inr resp, tp)
            \<and> addLoop (t\<lparr>savepoint := Some (tx t)\<rparr>) timestamp (take (Suc p) ord)
                (replicate (length leaves) None) = (Inr resq, tq)
            \<and> (case execInsertLeafData (tx tp)
                      (leafDataRowOf (treeID t) (leaf (ord ! p)) (UnixNano timestamp)) of
                  Inl e \<Rightarrow> tx tq = tx tp
                      \<and> res ! idx (ord ! p)
                          = statusSlot FailedPrecondition ''conflicting LeafIdentityHash''
                | Inr db1 \<Rightarrow>
                    (case execInsertSequencedLeaf db1 (sequencedRowOf (treeID t) (leaf (ord ! p))) of
                       Inl e \<Rightarrow> tx tq = tx tp
                           \<and> res ! idx (ord ! p) = statusSlot FailedPrecondition ''conflicting LeafIndex''
                     | Inr db2 \<Rightarrow> tx tq = db2 \<and> res ! idx (ord ! p) = statusSlot OK ''OK'')))
      \<and> LeafData (tx t')
          = LeafData (tx t) @ map (\<lambda>ol. leafDataRowOf (treeID t) (leaf ol) (UnixNano timestamp))
              (filter (\<lambda>ol. res ! idx ol = statusSlot OK ''OK'') ord)
      \<and> SequencedLeafData (tx t')
          = SequencedLeafData (tx t) @ map (\<lambda>ol. sequencedRowOf (treeID t) (leaf ol))
              (filter (\<lambda>ol. res ! idx ol = statusSlot OK ''OK'') ord)"
proof -
  let ?t0 = "t\<lparr>savepoint := Some (tx t)\<rparr>"
  let ?res0 = "replicate (length leaves) (None :: QueuedLogLeaf option)"
  note sp = sorted_positions [OF c, folded ord_def]
  have a: "\<forall>ol\<in>set ord. length (LeafIdentityHash (leaf ol)) = hashSizeBytes ?t0 \<and> idx ol < length ?res0"
    using sp(4) len by auto
  from addLoop_total [OF a, of timestamp] obtain res t2 where
    fin: "addLoop ?t0 timestamp ord ?res0 = (Inr res, t2)" and lr: "length res = length leaves"
    by auto
  have run: "logTreeTX_AddSequencedLeaves sortSort t leaves timestamp = (Inr res, t2\<lparr>savepoint := None\<rparr>)"
    by (simp add: logTreeTX_AddSequencedLeaves_def fin ord_def [symmetric])
  have trace: "leafInserts (t2\<lparr>savepoint := None\<rparr>)
      = leafInserts t @ map (\<lambda>ol. LeafIdentityHash (leaf ol)) ord"
    using addLoop_trace [OF fin] by simp
  have tid: "treeID ?t0 = treeID t" by simp
  have steps: "\<forall>p<length ord. \<exists>resp tp resq tq.
            addLoop ?t0 timestamp (take p ord) ?res0 = (Inr resp, tp)
            \<and> addLoop ?t0 timestamp (take (Suc p) ord) ?res0 = (Inr resq, tq)
            \<and> (case execInsertLeafData (tx tp)
                      (leafDataRowOf (treeID t) (leaf (ord ! p)) (UnixNano timestamp)) of
                  Inl e \<Rightarrow> tx tq = tx tp
                      \<and> res ! idx (ord ! p) = statusSlot FailedPrecondition ''conflicting LeafIdentityHash''
                | Inr db1 \<Rightarrow>
                    (case execInsertSequencedLeaf db1 (sequencedRowOf (treeID t) (leaf (ord ! p))) of
                       Inl e \<Rightarrow> tx tq = tx tp
                           \<and> res ! idx (ord ! p) = statusSlot FailedPrecondition ''conflicting LeafIndex''
                     | Inr db2 \<Rightarrow> tx tq = db2 \<and> res ! idx (ord ! p) = statusSlot OK ''OK''))"
    using addLoop_step [OF a sp(1) _ fin, unfolded tid] by blast
  from addLoop_tables [OF a sp(1) fin, of "length ord"] fin
  have tabs: "LeafData (tx t2)
          = LeafData (tx t) @ map (\<lambda>ol. leafDataRowOf (treeID t) (leaf ol) (UnixNano timestamp))
              (filter (\<lambda>ol. res ! idx ol = statusSlot OK ''OK'') ord)"
    "SequencedLeafData (tx t2)
          = SequencedLeafData (tx t) @ map (\<lambda>ol. sequencedRowOf (treeID t) (leaf ol))
              (filter (\<lambda>ol. res ! idx ol = statusSlot OK ''OK'') ord)"
    by simp_all
  show ?thesis
    apply (rule exI [of _ res], rule exI [of _ "t2\<lparr>savepoint := None\<rparr>"])
    apply (intro conjI)
    subgoal by (rule run)
    subgoal by (rule lr)
    subgoal by (rule trace)
    subgoal by (rule steps)
    subgoal using tabs(1) by simp
    subgoal using tabs(2) by simp
    done
qed

text \<open>
  Claim C5. Whenever the library sort keeps its promise on the batch with positions,
  the sorted slice holds every position of the batch once, each with the leaf of that
  position, in ascending bytewise order of \<open>leaf_identity_hash\<close>.

  \<open>QueueLeaves\<close>, on tables that keep the unique keys of the schema, with identity
  hashes of 32 bytes and a valid queue timestamp, returns its result and works through
  the leaves in the order of the sorted slice: the turn of the leaf at place \<open>p\<close>
  starts from the tables that the \<open>p\<close> leaves before it have left; when the tree
  does not hold the hash of the leaf there, the turn appends the leaf row and the queue
  row of that leaf, and the call returns no existing leaf at the original position of
  the leaf; when it does, the turn leaves the tables alone, and the call returns the
  stored leaf of that hash at the original position of the leaf. In the end the leaf
  table and the queue have grown by the rows of the leaves without an existing leaf,
  in the order of the sorted slice.

  \<open>AddSequencedLeaves\<close>, on a batch whose identity hashes have the size of the hasher,
  returns its result and works through the leaves in the same way: the turn of the leaf
  at place \<open>p\<close> starts from the tables the leaves before it have left, inserts the leaf
  row and the sequenced row of that leaf or, on a conflict, leaves the tables as they
  were before the turn, and the status of the leaf is written at the original position
  of the leaf. In the end the leaf table and the sequence table have grown by the rows
  of the leaves whose status is OK, in the order of the sorted slice.

  In both calls the record of the leaf inserts sent is the list of the hashes of the
  sorted slice, in order. For every call that returns a result, whatever the tables,
  that record is so, every position has its result, and an existing leaf returned by
  \<open>QueueLeaves\<close> at a position has the identity hash of the caller's leaf there.
\<close>

theorem sorted_insert_order_and_positions:
  fixes sortSort ls
  defines "ord \<equiv> sortLeavesForInsert sortSort ls"
  assumes c: "sortContract sortSort (withPositions ls)"
  shows "distinct (map idx ord)
     \<and> set (map idx ord) = {..<length ls}
     \<and> length ord = length ls
     \<and> (\<forall>ol\<in>set ord. leaf ol = ls ! idx ol)
     \<and> sorted_wrt (\<lambda>a b. bytesCompare (LeafIdentityHash (leaf a)) (LeafIdentityHash (leaf b)) \<le> 0) ord
     \<and> (\<forall>t leaves queueTimestamp.
           ls = map (\<lambda>l. l\<lparr>QueueTimestamp := Some queueTimestamp\<rparr>) leaves
           \<and> schemaOK (tx t) \<and> hashSizeBytes t = 32
           \<and> (\<forall>l\<in>set leaves. length (LeafIdentityHash l) = 32) \<and> CheckValid queueTimestamp
         \<longrightarrow> (\<exists>existing t'.
               logTreeTX_QueueLeaves sortSort t leaves queueTimestamp = (Inr existing, t', ls)
               \<and> length existing = length leaves
               \<and> leafInserts t' = leafInserts t @ map (\<lambda>ol. LeafIdentityHash (leaf ol)) ord
               \<and> (\<forall>p<length ord. \<exists>exp cntp tp exq cntq tq.
                     queueLoop t (take p ord) (replicate (length ls) None) 0 = (Inr (exp, cntp), tp)
                     \<and> queueLoop t (take (Suc p) ord) (replicate (length ls) None) 0
                         = (Inr (exq, cntq), tq)
                     \<and> (if LeafIdentityHash (leaf (ord ! p)) \<in> set (leafHashes (tx tp) (treeID t))
                        then tx tq = tx tp
                           \<and> canonicalLeaf (tx t') (treeID t) (LeafIdentityHash (leaf (ord ! p))) \<noteq> None
                           \<and> existing ! idx (ord ! p)
                               = canonicalLeaf (tx t') (treeID t) (LeafIdentityHash (leaf (ord ! p)))
                        else tx tq = (tx tp)\<lparr>LeafData := LeafData (tx tp)
                                 @ [leafDataRowOf (treeID t) (leaf (ord ! p)) (UnixNano queueTimestamp)],
                               Unsequenced := Unsequenced (tx tp)
                                 @ [unsequencedRowOf (treeID t) (leaf (ord ! p)) (UnixNano queueTimestamp)]\<rparr>
                           \<and> existing ! idx (ord ! p) = None))
               \<and> LeafData (tx t')
                   = LeafData (tx t)
                     @ map (\<lambda>ol. leafDataRowOf (treeID t) (leaf ol) (UnixNano queueTimestamp))
                         (filter (\<lambda>ol. existing ! idx ol = None) ord)
               \<and> Unsequenced (tx t')
                   = Unsequenced (tx t)
                     @ map (\<lambda>ol. unsequencedRowOf (treeID t) (leaf ol) (UnixNano queueTimestamp))
                         (filter (\<lambda>ol. existing ! idx ol = None) ord)))
     \<and> (\<forall>t timestamp.
           (\<forall>l\<in>set ls. length (LeafIdentityHash l) = hashSizeBytes t)
         \<longrightarrow> (\<exists>res t'.
               logTreeTX_AddSequencedLeaves sortSort t ls timestamp = (Inr res, t')
               \<and> length res = length ls
               \<and> leafInserts t' = leafInserts t @ map (\<lambda>ol. LeafIdentityHash (leaf ol)) ord
               \<and> (\<forall>p<length ord. \<exists>resp tp resq tq.
                     addLoop (t\<lparr>savepoint := Some (tx t)\<rparr>) timestamp (take p ord)
                         (replicate (length ls) None) = (Inr resp, tp)
                     \<and> addLoop (t\<lparr>savepoint := Some (tx t)\<rparr>) timestamp (take (Suc p) ord)
                         (replicate (length ls) None) = (Inr resq, tq)
                     \<and> (case execInsertLeafData (tx tp)
                               (leafDataRowOf (treeID t) (leaf (ord ! p)) (UnixNano timestamp)) of
                           Inl e \<Rightarrow> tx tq = tx tp
                               \<and> res ! idx (ord ! p)
                                   = statusSlot FailedPrecondition ''conflicting LeafIdentityHash''
                         | Inr db1 \<Rightarrow>
                             (case execInsertSequencedLeaf db1
                                     (sequencedRowOf (treeID t) (leaf (ord ! p))) of
                                Inl e \<Rightarrow> tx tq = tx tp
                                    \<and> res ! idx (ord ! p)
                                        = statusSlot FailedPrecondition ''conflicting LeafIndex''
                              | Inr db2 \<Rightarrow> tx tq = db2
                                    \<and> res ! idx (ord ! p) = statusSlot OK ''OK'')))
               \<and> LeafData (tx t')
                   = LeafData (tx t) @ map (\<lambda>ol. leafDataRowOf (treeID t) (leaf ol) (UnixNano timestamp))
                       (filter (\<lambda>ol. res ! idx ol = statusSlot OK ''OK'') ord)
               \<and> SequencedLeafData (tx t')
                   = SequencedLeafData (tx t) @ map (\<lambda>ol. sequencedRowOf (treeID t) (leaf ol))
                       (filter (\<lambda>ol. res ! idx ol = statusSlot OK ''OK'') ord)))
     \<and> (\<forall>t leaves queueTimestamp existing t'.
           logTreeTX_QueueLeaves sortSort t leaves queueTimestamp = (Inr existing, t', ls) \<longrightarrow>
             leafInserts t' = leafInserts t @ map (\<lambda>ol. LeafIdentityHash (leaf ol)) ord
             \<and> map LeafIdentityHash ls = map LeafIdentityHash leaves
             \<and> length existing = length leaves
             \<and> (\<forall>i<length leaves. \<forall>e. existing ! i = Some e
                   \<longrightarrow> LeafIdentityHash e = LeafIdentityHash (leaves ! i)))
     \<and> (\<forall>t timestamp res t'.
           logTreeTX_AddSequencedLeaves sortSort t ls timestamp = (Inr res, t') \<longrightarrow>
             leafInserts t' = leafInserts t @ map (\<lambda>ol. LeafIdentityHash (leaf ol)) ord
             \<and> length res = length ls
             \<and> (\<forall>i<length ls. res ! i \<noteq> None))"
proof -
  let ?ord = "sortLeavesForInsert sortSort ls"
  note sp = sorted_positions [OF c]
  have nq: "\<exists>existing t'.
               logTreeTX_QueueLeaves sortSort t leaves queueTimestamp = (Inr existing, t', ls)
               \<and> length existing = length leaves
               \<and> leafInserts t' = leafInserts t @ map (\<lambda>ol. LeafIdentityHash (leaf ol)) ord
               \<and> (\<forall>p<length ord. \<exists>exp cntp tp exq cntq tq.
                     queueLoop t (take p ord) (replicate (length ls) None) 0 = (Inr (exp, cntp), tp)
                     \<and> queueLoop t (take (Suc p) ord) (replicate (length ls) None) 0
                         = (Inr (exq, cntq), tq)
                     \<and> (if LeafIdentityHash (leaf (ord ! p)) \<in> set (leafHashes (tx tp) (treeID t))
                        then tx tq = tx tp
                           \<and> canonicalLeaf (tx t') (treeID t) (LeafIdentityHash (leaf (ord ! p))) \<noteq> None
                           \<and> existing ! idx (ord ! p)
                               = canonicalLeaf (tx t') (treeID t) (LeafIdentityHash (leaf (ord ! p)))
                        else tx tq = (tx tp)\<lparr>LeafData := LeafData (tx tp)
                                 @ [leafDataRowOf (treeID t) (leaf (ord ! p)) (UnixNano queueTimestamp)],
                               Unsequenced := Unsequenced (tx tp)
                                 @ [unsequencedRowOf (treeID t) (leaf (ord ! p)) (UnixNano queueTimestamp)]\<rparr>
                           \<and> existing ! idx (ord ! p) = None))
               \<and> LeafData (tx t')
                   = LeafData (tx t)
                     @ map (\<lambda>ol. leafDataRowOf (treeID t) (leaf ol) (UnixNano queueTimestamp))
                         (filter (\<lambda>ol. existing ! idx ol = None) ord)
               \<and> Unsequenced (tx t')
                   = Unsequenced (tx t)
                     @ map (\<lambda>ol. unsequencedRowOf (treeID t) (leaf ol) (UnixNano queueTimestamp))
                         (filter (\<lambda>ol. existing ! idx ol = None) ord)"
    if h: "ls = map (\<lambda>l. l\<lparr>QueueTimestamp := Some queueTimestamp\<rparr>) leaves
           \<and> schemaOK (tx t) \<and> hashSizeBytes t = 32
           \<and> (\<forall>l\<in>set leaves. length (LeafIdentityHash l) = 32) \<and> CheckValid queueTimestamp"
    for t leaves queueTimestamp
  proof -
    from h have lse: "ls = map (\<lambda>l. l\<lparr>QueueTimestamp := Some queueTimestamp\<rparr>) leaves"
      and ok: "schemaOK (tx t)" and hs: "hashSizeBytes t = 32"
      and len: "\<forall>l\<in>set leaves. length (LeafIdentityHash l) = 32" and v: "CheckValid queueTimestamp"
      by simp_all
    show ?thesis
      unfolding ord_def lse
      by (rule logTreeTX_QueueLeaves_in_order [OF ok hs len v c [unfolded lse]])
  qed
  have na: "\<exists>res t'.
               logTreeTX_AddSequencedLeaves sortSort t ls timestamp = (Inr res, t')
               \<and> length res = length ls
               \<and> leafInserts t' = leafInserts t @ map (\<lambda>ol. LeafIdentityHash (leaf ol)) ord
               \<and> (\<forall>p<length ord. \<exists>resp tp resq tq.
                     addLoop (t\<lparr>savepoint := Some (tx t)\<rparr>) timestamp (take p ord)
                         (replicate (length ls) None) = (Inr resp, tp)
                     \<and> addLoop (t\<lparr>savepoint := Some (tx t)\<rparr>) timestamp (take (Suc p) ord)
                         (replicate (length ls) None) = (Inr resq, tq)
                     \<and> (case execInsertLeafData (tx tp)
                               (leafDataRowOf (treeID t) (leaf (ord ! p)) (UnixNano timestamp)) of
                           Inl e \<Rightarrow> tx tq = tx tp
                               \<and> res ! idx (ord ! p)
                                   = statusSlot FailedPrecondition ''conflicting LeafIdentityHash''
                         | Inr db1 \<Rightarrow>
                             (case execInsertSequencedLeaf db1
                                     (sequencedRowOf (treeID t) (leaf (ord ! p))) of
                                Inl e \<Rightarrow> tx tq = tx tp
                                    \<and> res ! idx (ord ! p)
                                        = statusSlot FailedPrecondition ''conflicting LeafIndex''
                              | Inr db2 \<Rightarrow> tx tq = db2
                                    \<and> res ! idx (ord ! p) = statusSlot OK ''OK'')))
               \<and> LeafData (tx t')
                   = LeafData (tx t) @ map (\<lambda>ol. leafDataRowOf (treeID t) (leaf ol) (UnixNano timestamp))
                       (filter (\<lambda>ol. res ! idx ol = statusSlot OK ''OK'') ord)
               \<and> SequencedLeafData (tx t')
                   = SequencedLeafData (tx t) @ map (\<lambda>ol. sequencedRowOf (treeID t) (leaf ol))
                       (filter (\<lambda>ol. res ! idx ol = statusSlot OK ''OK'') ord)"
    if len: "\<forall>l\<in>set ls. length (LeafIdentityHash l) = hashSizeBytes t" for t timestamp
    unfolding ord_def by (rule logTreeTX_AddSequencedLeaves_in_order [OF c len])
  have q: "leafInserts t' = leafInserts t @ map (\<lambda>ol. LeafIdentityHash (leaf ol)) ?ord
             \<and> map LeafIdentityHash ls = map LeafIdentityHash leaves
             \<and> length existing = length leaves
             \<and> (\<forall>i<length leaves. \<forall>e. existing ! i = Some e
                   \<longrightarrow> LeafIdentityHash e = LeafIdentityHash (leaves ! i))"
    if run: "logTreeTX_QueueLeaves sortSort t leaves queueTimestamp = (Inr existing, t', ls)"
    for t leaves queueTimestamp existing t'
  proof -
    from run have st: "stampLeaves (hashSizeBytes t) queueTimestamp leaves = (None, ls)"
      by (auto simp: logTreeTX_QueueLeaves_def Let_def split: prod.splits option.splits sum.splits if_splits)
    from stampLeaves_None [OF st]
    have ls: "ls = map (\<lambda>l. l\<lparr>QueueTimestamp := Some queueTimestamp\<rparr>) leaves" by simp
    then have len: "length ls = length leaves"
      and hashes: "map LeafIdentityHash ls = map LeafIdentityHash leaves"
      by (simp_all add: comp_def)
    from run st obtain ex cnt where
      loop: "queueLoop t ?ord (replicate (length ls) None) 0 = (Inr (ex, cnt), t')"
      and fin: "existing = ex \<or> (\<exists>results. replaceExisting results ex = Inr existing)"
      by (auto simp: logTreeTX_QueueLeaves_def Let_def split: prod.splits sum.splits if_splits)
    from queueLoop_slots [OF loop, of ls] sp(4)
    have exl: "length ex = length ls"
      and exh: "\<forall>i<length ex. \<forall>e. ex ! i = Some e \<longrightarrow> LeafIdentityHash e = LeafIdentityHash (ls ! i)"
      by auto
    have "length existing = length ex
        \<and> (\<forall>i<length ex. \<forall>e. existing ! i = Some e \<longrightarrow> LeafIdentityHash e = LeafIdentityHash (ls ! i))"
    proof (rule disjE [OF fin])
      assume "existing = ex"
      with exh show ?thesis by simp
    next
      assume "\<exists>results. replaceExisting results ex = Inr existing"
      then obtain results where "replaceExisting results ex = Inr existing" ..
      from replaceExisting_slots [OF this]
      have l2: "list_all2 (\<lambda>a b. case a of None \<Rightarrow> b = None
                    | Some x \<Rightarrow> (\<exists>y. b = Some y \<and> LeafIdentityHash y = LeafIdentityHash x
                                     \<and> find (\<lambda>r. LeafIdentityHash r = LeafIdentityHash x) results = Some y))
           ex existing" .
      then have le: "length existing = length ex" by (simp add: list_all2_lengthD)
      have "LeafIdentityHash e = LeafIdentityHash (ls ! i)"
        if "i < length ex" "existing ! i = Some e" for i e
      proof -
        from list_all2_nthD [OF l2 that(1)] that(2)
        obtain x where "ex ! i = Some x" "LeafIdentityHash e = LeafIdentityHash x"
          by (cases "ex ! i") auto
        with exh that(1) show ?thesis by simp
      qed
      with le show ?thesis by simp
    qed
    moreover have "LeafIdentityHash (ls ! i) = LeafIdentityHash (leaves ! i)" if "i < length leaves" for i
      using that ls by simp
    ultimately show ?thesis
      using queueLoop_trace [OF loop] hashes exl len by simp
  qed
  have a: "leafInserts t' = leafInserts t @ map (\<lambda>ol. LeafIdentityHash (leaf ol)) ?ord
             \<and> length res = length ls \<and> (\<forall>i<length ls. res ! i \<noteq> None)"
    if run: "logTreeTX_AddSequencedLeaves sortSort t ls timestamp = (Inr res, t')"
    for t timestamp res t'
  proof -
    from run obtain t2 where
      loop: "addLoop (t\<lparr>savepoint := Some (tx t)\<rparr>) timestamp ?ord (replicate (length ls) None) = (Inr res, t2)"
      and t': "t' = t2\<lparr>savepoint := None\<rparr>"
      by (auto simp: logTreeTX_AddSequencedLeaves_def split: prod.splits sum.splits)
    from addLoop_slots [OF loop] sp(2)
    have "length res = length ls" "\<forall>i<length ls. res ! i \<noteq> None"
      by auto
    with addLoop_trace [OF loop] t' show ?thesis by simp
  qed
  show ?thesis
    unfolding ord_def
    apply (intro conjI)
    subgoal by (rule sp(1))
    subgoal by (rule sp(2))
    subgoal by (rule sp(3))
    subgoal using sp(4) by blast
    subgoal by (rule sp(5))
    subgoal using nq [unfolded ord_def] by blast
    subgoal using na [unfolded ord_def] by blast
    subgoal using q by blast
    subgoal using a by blast
    done
qed

theorem sorted_insert_order_and_positions_witness:
  "sortContract insertionSort (withPositions (map (\<lambda>l. l\<lparr>QueueTimestamp := Some 50\<rparr>) queueBatch))
   \<and> map idx (sortLeavesForInsert insertionSort (map (\<lambda>l. l\<lparr>QueueTimestamp := Some 50\<rparr>) queueBatch))
       = [3, 1, 0, 2]
   \<and> schemaOK (tx queueTx) \<and> hashSizeBytes queueTx = 32 \<and> CheckValid 50
   \<and> map (\<lambda>l. length (LeafIdentityHash l)) queueBatch = [32, 32, 32, 32]
   \<and> leafInserts (fst (snd (logTreeTX_QueueLeaves insertionSort queueTx queueBatch 50)))
       = [h32 1, h32 2, h32 3, h32 3]
   \<and> map (map_option LeafValue) (projr (fst (logTreeTX_QueueLeaves insertionSort queueTx queueBatch 50)))
       = [None, Some [20], Some [30], None]
   \<and> map ld_LeafValue (LeafData (tx (fst (snd (logTreeTX_QueueLeaves insertionSort queueTx queueBatch 50)))))
       = [[20], [10], [30]]
   \<and> sortContract insertionSort (withPositions addBatch)
   \<and> map idx (sortLeavesForInsert insertionSort addBatch) = [3, 2, 1, 0]
   \<and> map (\<lambda>l. length (LeafIdentityHash l)) addBatch = [32, 32, 32, 32]
   \<and> hashSizeBytes addTx = 32
   \<and> leafInserts (snd (logTreeTX_AddSequencedLeaves insertionSort addTx addBatch 50))
       = [h32 1, h32 2, h32 3, h32 4]
   \<and> projr (fst (logTreeTX_AddSequencedLeaves insertionSort addTx addBatch 50))
       = [statusSlot FailedPrecondition ''conflicting LeafIndex'',
          statusSlot FailedPrecondition ''conflicting LeafIndex'',
          statusSlot FailedPrecondition ''conflicting LeafIdentityHash'',
          statusSlot OK ''OK'']
   \<and> map ld_LeafValue (LeafData (tx (snd (logTreeTX_AddSequencedLeaves insertionSort addTx addBatch 50))))
       = [[20], [10]]"
proof -
  let ?ls = "map (\<lambda>l. l\<lparr>QueueTimestamp := Some 50\<rparr>) queueBatch"
  let ?R = "logTreeTX_QueueLeaves insertionSort queueTx queueBatch 50"
  let ?A = "logTreeTX_AddSequencedLeaves insertionSort addTx addBatch 50"
  let ?o1 = "sortLeavesForInsert insertionSort ?ls"
  let ?o2 = "sortLeavesForInsert insertionSort addBatch"
  have c1: "sortContract insertionSort (withPositions ?ls)"
    by code_simp
  have c2: "sortContract insertionSort (withPositions addBatch)"
    by code_simp
  have i1: "map idx ?o1 = [3, 1, 0, 2]"
    by code_simp
  have i2: "map idx ?o2 = [3, 2, 1, 0]"
    by code_simp
  have ok: "schemaOK (tx queueTx)"
    by code_simp
  have hs: "hashSizeBytes queueTx = 32" "hashSizeBytes addTx = 32"
    by (simp_all add: queueTx_def addTx_def)
  have v: "CheckValid 50"
    by (simp add: CheckValid_def)
  have len1: "\<forall>l\<in>set queueBatch. length (LeafIdentityHash l) = 32"
    by code_simp
  have len2: "\<forall>l\<in>set addBatch. length (LeafIdentityHash l) = hashSizeBytes addTx"
    by code_simp
  have l1: "map (\<lambda>l. length (LeafIdentityHash l)) queueBatch = [32, 32, 32, 32]"
    by code_simp
  have l2: "map (\<lambda>l. length (LeafIdentityHash l)) addBatch = [32, 32, 32, 32]"
    by code_simp
  have o1: "map (\<lambda>ol. LeafIdentityHash (leaf ol)) ?o1 = [h32 1, h32 2, h32 3, h32 3]"
    by code_simp
  have o2: "map (\<lambda>ol. LeafIdentityHash (leaf ol)) ?o2 = [h32 1, h32 2, h32 3, h32 4]"
    by code_simp
  have t0: "leafInserts queueTx = []" "leafInserts addTx = []"
    by (simp_all add: queueTx_def addTx_def)
  have s1: "map (map_option LeafValue) (projr (fst ?R)) = [None, Some [20], Some [30], None]"
    by code_simp
  have s2: "projr (fst ?A)
       = [statusSlot FailedPrecondition ''conflicting LeafIndex'',
          statusSlot FailedPrecondition ''conflicting LeafIndex'',
          statusSlot FailedPrecondition ''conflicting LeafIdentityHash'',
          statusSlot OK ''OK'']"
    by code_simp
  have h: "?ls = map (\<lambda>l. l\<lparr>QueueTimestamp := Some 50\<rparr>) queueBatch
           \<and> schemaOK (tx queueTx) \<and> hashSizeBytes queueTx = 32
           \<and> (\<forall>l\<in>set queueBatch. length (LeafIdentityHash l) = 32) \<and> CheckValid 50"
    using ok hs(1) len1 v by simp
  from sorted_insert_order_and_positions [OF c1, THEN conjunct2, THEN conjunct2, THEN conjunct2,
      THEN conjunct2, THEN conjunct2, THEN conjunct1, rule_format,
      where t = queueTx and leaves = queueBatch and queueTimestamp = 50, OF h]
  obtain existing t' where
    run: "?R = (Inr existing, t', ?ls)"
    and tr: "leafInserts t' = leafInserts queueTx @ map (\<lambda>ol. LeafIdentityHash (leaf ol)) ?o1"
    and ld: "LeafData (tx t')
          = LeafData (tx queueTx) @ map (\<lambda>ol. leafDataRowOf (treeID queueTx) (leaf ol) (UnixNano 50))
              (filter (\<lambda>ol. existing ! idx ol = None) ?o1)"
    by blast
  from run have ex: "existing = projr (fst ?R)" and t': "t' = fst (snd ?R)" by simp_all
  have q1: "leafInserts (fst (snd ?R)) = [h32 1, h32 2, h32 3, h32 3]"
    using tr unfolding t' o1 t0 by simp
  have "map ld_LeafValue (LeafData (tx queueTx)
          @ map (\<lambda>ol. leafDataRowOf (treeID queueTx) (leaf ol) (UnixNano 50))
              (filter (\<lambda>ol. projr (fst ?R) ! idx ol = None) ?o1)) = [[20], [10], [30]]"
    by code_simp
  with ld have q2: "map ld_LeafValue (LeafData (tx (fst (snd ?R)))) = [[20], [10], [30]]"
    unfolding ex t' by simp
  from sorted_insert_order_and_positions [OF c2, THEN conjunct2, THEN conjunct2, THEN conjunct2,
      THEN conjunct2, THEN conjunct2, THEN conjunct2, THEN conjunct1, rule_format,
      where t = addTx and timestamp = 50, OF len2 [rule_format]]
  obtain res t2 where
    run2: "?A = (Inr res, t2)"
    and tr2: "leafInserts t2 = leafInserts addTx @ map (\<lambda>ol. LeafIdentityHash (leaf ol)) ?o2"
    and ld2: "LeafData (tx t2)
          = LeafData (tx addTx) @ map (\<lambda>ol. leafDataRowOf (treeID addTx) (leaf ol) (UnixNano 50))
              (filter (\<lambda>ol. res ! idx ol = statusSlot OK ''OK'') ?o2)"
    by blast
  from run2 have res: "res = projr (fst ?A)" and t2: "t2 = snd ?A" by simp_all
  have a1: "leafInserts (snd ?A) = [h32 1, h32 2, h32 3, h32 4]"
    using tr2 unfolding t2 o2 t0 by simp
  have "map ld_LeafValue (LeafData (tx addTx)
          @ map (\<lambda>ol. leafDataRowOf (treeID addTx) (leaf ol) (UnixNano 50))
              (filter (\<lambda>ol. projr (fst ?A) ! idx ol = statusSlot OK ''OK'') ?o2)) = [[20], [10]]"
    by code_simp
  with ld2 have a2: "map ld_LeafValue (LeafData (tx (snd ?A))) = [[20], [10]]"
    unfolding res t2 by simp
  from c1 i1 ok hs(1) v l1 q1 s1 q2 c2 i2 l2 hs(2) a1 s2 a2 show ?thesis by blast
qed

end
